theory Spec2Isabelle
  imports Main "HOL-Library.Char_ord" "HOL-Library.List_Lexorder"
begin

section \<open>Python string primitives used by the parser and the validator\<close>

text \<open>
  Python strings are modelled as \<open>string\<close>. \<open>count_char\<close> is \<open>str.count\<close> with a
  one-character argument, \<open>split_on\<close> is \<open>str.split(sep)\<close> with a one-character separator
  (it always returns one more piece than there are separators), \<open>join_with\<close> is
  \<open>sep.join(parts)\<close> and \<open>replace_char\<close> is \<open>str.replace\<close> on single characters.
\<close>

fun count_char :: "char \<Rightarrow> string \<Rightarrow> nat" where
  "count_char c [] = 0"
| "count_char c (x # xs) = (if x = c then Suc (count_char c xs) else count_char c xs)"

fun split_on :: "char \<Rightarrow> string \<Rightarrow> string list" where
  "split_on c [] = [[]]"
| "split_on c (x # xs) =
     (if x = c then [] # split_on c xs
      else (case split_on c xs of
              [] \<Rightarrow> [[x]]
            | p # ps \<Rightarrow> (x # p) # ps))"

fun join_with :: "string \<Rightarrow> string list \<Rightarrow> string" where
  "join_with sep [] = []"
| "join_with sep [p] = p"
| "join_with sep (p # q # ps) = p @ sep @ join_with sep (q # ps)"

definition replace_char :: "char \<Rightarrow> char \<Rightarrow> string \<Rightarrow> string" where
  "replace_char a b s = map (\<lambda>x. if x = a then b else x) s"

section \<open>RepositoryManager.parse_dependency\<close>

text \<open>
  Both \<open>raise ValueError(...)\<close> statements of the source are the error \<open>InvalidFormat\<close>.
  The tuple unpackings \<open>group, artifact, version = dependency.split(':')\<close> and
  \<open>group_artifact, version = dependency.split(':')\<close> raise when the number of pieces is
  not the one expected, and \<open>parts[-1]\<close> raises on an empty list; these are the
  branches \<open>UnpackError\<close> and \<open>IndexError\<close> of the model.
\<close>

datatype parse_error = InvalidFormat | UnpackError | IndexError

type_synonym coordinate = "string \<times> string \<times> string"

definition parse_dependency :: "string \<Rightarrow> parse_error + coordinate" where
  "parse_dependency dependency =
     (if count_char CHR '':'' dependency = 2 then
        (case split_on CHR '':'' dependency of
           [grp, artifact, version] \<Rightarrow> Inr (grp, artifact, version)
         | _ \<Rightarrow> Inl UnpackError)
      else if count_char CHR '':'' dependency = 1 then
        (case split_on CHR '':'' dependency of
           [group_artifact, version] \<Rightarrow>
             (if CHR ''.'' \<in> set group_artifact then
                (let parts = split_on CHR ''.'' group_artifact in
                 if parts = [] then Inl IndexError
                 else Inr (join_with ''.'' (butlast parts), last parts, version))
              else Inl InvalidFormat)
         | _ \<Rightarrow> Inl UnpackError)
      else Inl InvalidFormat)"


section \<open>utils.validate_dependency_format\<close>

text \<open>
  \<open>str.strip()\<close> removes the characters for which \<open>str.isspace\<close> holds from both ends.
  Among the code points below 256 these are 9 to 13, 28 to 32, 133 and 160.
  The argument is a \<open>str\<close> here, so the \<open>isinstance\<close> test of the source always passes;
  \<open>not dependency\<close> is the test for the empty string.
\<close>

definition py_isspace :: "char \<Rightarrow> bool" where
  "py_isspace c =
     (let n = (of_char c :: nat)
      in (9 \<le> n \<and> n \<le> 13) \<or> (28 \<le> n \<and> n \<le> 32) \<or> n = 133 \<or> n = 160)"

definition strip :: "string \<Rightarrow> string" where
  "strip s = rev (dropWhile py_isspace (rev (dropWhile py_isspace s)))"

definition validate_dependency_format :: "string \<Rightarrow> bool" where
  "validate_dependency_format dependency =
     (if dependency = [] then False
      else
        (let parts = split_on CHR '':'' dependency in
         if length parts = 2 then
           (case parts of
              [group_artifact, version] \<Rightarrow>
                CHR ''.'' \<in> set group_artifact \<and> strip version \<noteq> []
            | _ \<Rightarrow> False)
         else if length parts = 3 then
           (case parts of
              [grp, artifact, version] \<Rightarrow>
                strip grp \<noteq> [] \<and> strip artifact \<noteq> [] \<and> strip version \<noteq> []
            | _ \<Rightarrow> False)
         else False))"

section \<open>urllib.parse.urljoin\<close>

text \<open>
  The URL builders call \<open>urljoin\<close> of the Python standard library. It is modelled
  after \<open>urllib/parse.py\<close> of Python 3.11: \<open>urlsplit\<close>, \<open>urlparse\<close>, \<open>urlunsplit\<close>,
  \<open>urlunparse\<close> and \<open>urljoin\<close>, on strings, with fragments allowed.
  \<open>urlsplit\<close> raises \<open>ValueError\<close> for a network location with one bracket but not the
  other, and for a bracketed host that \<open>_check_bracketed_host\<close> refuses. That last check
  parses IP addresses with another library module; whether it accepts a host is the
  parameter \<open>host_ok\<close>. \<open>_checknetloc\<close> never raises on characters below 256, the only
  ones a \<open>string\<close> has, and is left out.
\<close>

datatype url_error = InvalidIPv6URL | InvalidBracketedHost

definition uses_relative :: "string list" where
  "uses_relative = [[], ''ftp'', ''http'', ''gopher'', ''nntp'', ''imap'',
                    ''wais'', ''file'', ''https'', ''shttp'', ''mms'',
                    ''prospero'', ''rtsp'', ''rtsps'', ''rtspu'', ''sftp'',
                    ''svn'', ''svn+ssh'', ''ws'', ''wss'']"

definition uses_netloc :: "string list" where
  "uses_netloc = [[], ''ftp'', ''http'', ''gopher'', ''nntp'', ''telnet'',
                  ''imap'', ''wais'', ''file'', ''mms'', ''https'', ''shttp'',
                  ''snews'', ''prospero'', ''rtsp'', ''rtsps'', ''rtspu'', ''rsync'',
                  ''svn'', ''svn+ssh'', ''sftp'', ''nfs'', ''git'', ''git+ssh'',
                  ''ws'', ''wss'']"

definition uses_params :: "string list" where
  "uses_params = [[], ''ftp'', ''hdl'', ''prospero'', ''http'', ''imap'',
                  ''https'', ''shttp'', ''rtsp'', ''rtsps'', ''rtspu'', ''sip'',
                  ''sips'', ''mms'', ''sftp'', ''tel'']"

definition ascii_alpha :: "char \<Rightarrow> bool" where
  "ascii_alpha c =
     (let n = (of_char c :: nat) in (65 \<le> n \<and> n \<le> 90) \<or> (97 \<le> n \<and> n \<le> 122))"

definition scheme_char :: "char \<Rightarrow> bool" where
  "scheme_char c =
     (let n = (of_char c :: nat)
      in ascii_alpha c \<or> (48 \<le> n \<and> n \<le> 57) \<or> c = CHR ''+'' \<or> c = CHR ''-'' \<or> c = CHR ''.'')"

definition ascii_lower :: "char \<Rightarrow> char" where
  "ascii_lower c =
     (let n = (of_char c :: nat) in if 65 \<le> n \<and> n \<le> 90 then char_of (n + 32) else c)"

definition c0_control_or_space :: "char \<Rightarrow> bool" where
  "c0_control_or_space c = ((of_char c :: nat) \<le> 32)"

definition unsafe_url_byte :: "char \<Rightarrow> bool" where
  "unsafe_url_byte c = (c = CHR 0x09 \<or> c = CHR 0x0D \<or> c = CHR 0x0A)"

text \<open>\<open>s.partition(c)\<close>: the text before the first \<open>c\<close> and the text after it.\<close>

definition before_char :: "char \<Rightarrow> string \<Rightarrow> string" where
  "before_char c s = takeWhile (\<lambda>x. x \<noteq> c) s"

definition after_char :: "char \<Rightarrow> string \<Rightarrow> string" where
  "after_char c s = drop 1 (dropWhile (\<lambda>x. x \<noteq> c) s)"

definition netloc_delim :: "char \<Rightarrow> bool" where
  "netloc_delim c = (c = CHR ''/'' \<or> c = CHR ''?'' \<or> c = CHR ''#'')"

type_synonym split_result = "string \<times> string \<times> string \<times> string \<times> string"

type_synonym parse_result = "string \<times> string \<times> string \<times> string \<times> string \<times> string"

text \<open>The end of \<open>urlsplit\<close>: the fragment is cut off first, then the query.\<close>

definition split_query_fragment :: "string \<Rightarrow> string \<Rightarrow> string \<Rightarrow> split_result" where
  "split_query_fragment scheme netloc url =
     (let (url, fragment) =
            (if CHR ''#'' \<in> set url then (before_char CHR ''#'' url, after_char CHR ''#'' url)
             else (url, []));
          (url, query) =
            (if CHR ''?'' \<in> set url then (before_char CHR ''?'' url, after_char CHR ''?'' url)
             else (url, []))
      in (scheme, netloc, url, query, fragment))"

definition urlsplit :: "(string \<Rightarrow> bool) \<Rightarrow> string \<Rightarrow> string \<Rightarrow> url_error + split_result" where
  "urlsplit host_ok url scheme =
     (let url = filter (\<lambda>c. \<not> unsafe_url_byte c) (dropWhile c0_control_or_space url);
          scheme = filter (\<lambda>c. \<not> unsafe_url_byte c)
                     (rev (dropWhile c0_control_or_space
                        (rev (dropWhile c0_control_or_space scheme))));
          candidate = before_char CHR '':'' url;
          (scheme, url) =
            (if CHR '':'' \<in> set url \<and> candidate \<noteq> [] \<and> ascii_alpha (hd url)
                \<and> list_all scheme_char candidate
             then (map ascii_lower candidate, drop (Suc (length candidate)) url)
             else (scheme, url))
      in if take 2 url = ''//'' then
           (let netloc = takeWhile (\<lambda>c. \<not> netloc_delim c) (drop 2 url);
                url = dropWhile (\<lambda>c. \<not> netloc_delim c) (drop 2 url)
            in if (CHR ''['' \<in> set netloc \<and> CHR '']'' \<notin> set netloc)
                  \<or> (CHR '']'' \<in> set netloc \<and> CHR ''['' \<notin> set netloc)
               then Inl InvalidIPv6URL
               else if CHR ''['' \<in> set netloc \<and> CHR '']'' \<in> set netloc
                       \<and> \<not> host_ok (before_char CHR '']'' (after_char CHR ''['' netloc))
               then Inl InvalidBracketedHost
               else Inr (split_query_fragment scheme netloc url))
         else Inr (split_query_fragment scheme [] url))"

text \<open>
  \<open>_splitparams\<close>: the parameters start at the first semicolon after the last slash,
  or at the first semicolon when there is no slash.
\<close>

definition splitparams :: "string \<Rightarrow> string \<times> string" where
  "splitparams url =
     (if CHR ''/'' \<in> set url then
        (let k = length url - Suc (length (takeWhile (\<lambda>c. c \<noteq> CHR ''/'') (rev url)));
             tail = drop k url
         in if CHR '';'' \<in> set tail
            then (let i = k + length (before_char CHR '';'' tail)
                  in (take i url, drop (Suc i) url))
            else (url, []))
      else (let i = length (before_char CHR '';'' url) in (take i url, drop (Suc i) url)))"

definition urlparse :: "(string \<Rightarrow> bool) \<Rightarrow> string \<Rightarrow> string \<Rightarrow> url_error + parse_result" where
  "urlparse host_ok url scheme =
     (case urlsplit host_ok url scheme of
        Inl e \<Rightarrow> Inl e
      | Inr (scheme, netloc, url, query, fragment) \<Rightarrow>
          (let (url, params) =
                 (if scheme \<in> set uses_params \<and> CHR '';'' \<in> set url then splitparams url
                  else (url, []))
           in Inr (scheme, netloc, url, params, query, fragment)))"

definition urlunsplit :: "split_result \<Rightarrow> string" where
  "urlunsplit components =
     (case components of (scheme, netloc, url, query, fragment) \<Rightarrow>
        (let url = (if netloc \<noteq> [] \<or> (scheme \<noteq> [] \<and> scheme \<in> set uses_netloc)
                       \<or> take 2 url = ''//''
                    then ''//'' @ netloc
                         @ (if url \<noteq> [] \<and> take 1 url \<noteq> ''/'' then ''/'' @ url else url)
                    else url);
             url = (if scheme \<noteq> [] then scheme @ '':'' @ url else url);
             url = (if query \<noteq> [] then url @ ''?'' @ query else url);
             url = (if fragment \<noteq> [] then url @ ''#'' @ fragment else url)
         in url))"

definition urlunparse :: "parse_result \<Rightarrow> string" where
  "urlunparse components =
     (case components of (scheme, netloc, url, params, query, fragment) \<Rightarrow>
        urlunsplit (scheme, netloc, (if params \<noteq> [] then url @ '';'' @ params else url),
                    query, fragment))"

text \<open>
  The path resolution of \<open>urljoin\<close>: \<open>segments[1:-1] = filter(None, segments[1:-1])\<close>
  drops the empty strings between the first and the last segment, and the loop over the
  segments drops each \<open>.\<close> and lets each \<open>..\<close> remove the segment before it, if any.
\<close>

definition filter_middle :: "string list \<Rightarrow> string list" where
  "filter_middle segments =
     (case segments of
        [] \<Rightarrow> []
      | [x] \<Rightarrow> [x]
      | x # xs \<Rightarrow> x # filter (\<lambda>s. s \<noteq> []) (butlast xs) @ [last xs])"

fun resolve_dots :: "string list \<Rightarrow> string list \<Rightarrow> string list" where
  "resolve_dots [] resolved_path = resolved_path"
| "resolve_dots (seg # segments) resolved_path =
     (if seg = ''..'' then resolve_dots segments (butlast resolved_path)
      else if seg = ''.'' then resolve_dots segments resolved_path
      else resolve_dots segments (resolved_path @ [seg]))"

definition urljoin :: "(string \<Rightarrow> bool) \<Rightarrow> string \<Rightarrow> string \<Rightarrow> url_error + string" where
  "urljoin host_ok base url =
     (if base = [] then Inr url
      else if url = [] then Inr base
      else
        (case urlparse host_ok base [] of
           Inl e \<Rightarrow> Inl e
         | Inr (bscheme, bnetloc, bpath, bparams, bquery, bfragment) \<Rightarrow>
             (case urlparse host_ok url bscheme of
                Inl e \<Rightarrow> Inl e
              | Inr (scheme, netloc, path, params, query, fragment) \<Rightarrow>
                  if scheme \<noteq> bscheme \<or> scheme \<notin> set uses_relative then Inr url
                  else if scheme \<in> set uses_netloc \<and> netloc \<noteq> []
                  then Inr (urlunparse (scheme, netloc, path, params, query, fragment))
                  else
                    (let netloc = (if scheme \<in> set uses_netloc then bnetloc else netloc)
                     in if path = [] \<and> params = []
                        then Inr (urlunparse (scheme, netloc, bpath, bparams,
                                    (if query = [] then bquery else query), fragment))
                        else
                          (let base_parts = split_on CHR ''/'' bpath;
                               base_parts = (if last base_parts \<noteq> [] then butlast base_parts
                                             else base_parts);
                               segments = (if take 1 path = ''/'' then split_on CHR ''/'' path
                                           else filter_middle
                                                  (base_parts @ split_on CHR ''/'' path));
                               resolved_path = resolve_dots segments [];
                               resolved_path = (if last segments = ''.'' \<or> last segments = ''..''
                                                then resolved_path @ [[]] else resolved_path);
                               joined = join_with ''/'' resolved_path
                           in Inr (urlunparse (scheme, netloc,
                                     (if joined = [] then ''/'' else joined),
                                     params, query, fragment)))))))"

section \<open>URLs and local paths\<close>

text \<open>
  \<open>classifier\<close> is \<open>None\<close> by default, and \<open>if classifier:\<close> is also false for the
  empty string. Both builders raise what \<open>urljoin\<close> raises.
\<close>

definition get_metadata_url ::
  "(string \<Rightarrow> bool) \<Rightarrow> string \<Rightarrow> string \<Rightarrow> string \<Rightarrow> url_error + string" where
  "get_metadata_url host_ok repo_url grp artifact =
     (let group_path = replace_char CHR ''.'' CHR ''/'' grp
      in urljoin host_ok repo_url (group_path @ ''/'' @ artifact @ ''/maven-metadata.xml''))"

definition get_artifact_url ::
  "(string \<Rightarrow> bool) \<Rightarrow> string \<Rightarrow> string \<Rightarrow> string \<Rightarrow> string \<Rightarrow> string option \<Rightarrow> string
   \<Rightarrow> url_error + string" where
  "get_artifact_url host_ok repo_url grp artifact version classifier extension =
     (let group_path = replace_char CHR ''.'' CHR ''/'' grp;
          filename = artifact @ ''-'' @ version;
          filename = (case classifier of
                        None \<Rightarrow> filename
                      | Some c \<Rightarrow> if c \<noteq> [] then filename @ ''-'' @ c else filename);
          filename = filename @ ''.'' @ extension
      in urljoin host_ok repo_url
           (group_path @ ''/'' @ artifact @ ''/'' @ version @ ''/'' @ filename))"

text \<open>
  The path of the specification, to be joined to the base URL:
  \<open>{group-with-dots-as-slashes}/{artifact}/{version}/{artifact}-{version}[-{classifier}].{extension}\<close>.
  A character is plain in a URL when it is none of the colon, the question mark, the
  hash, the semicolon, and no tab, carriage return or line feed; a path segment is plain
  when it is not empty, holds no slash and is neither \<open>.\<close> nor \<open>..\<close>.
\<close>

definition spec_artifact_path ::
  "string \<Rightarrow> string \<Rightarrow> string \<Rightarrow> string option \<Rightarrow> string \<Rightarrow> string" where
  "spec_artifact_path grp artifact version classifier extension =
     replace_char CHR ''.'' CHR ''/'' grp @ ''/'' @ artifact @ ''/'' @ version @ ''/''
     @ artifact @ ''-'' @ version
     @ (case classifier of None \<Rightarrow> [] | Some c \<Rightarrow> ''-'' @ c) @ ''.'' @ extension"

definition url_plain_char :: "char \<Rightarrow> bool" where
  "url_plain_char c =
     (c \<noteq> CHR '':'' \<and> c \<noteq> CHR ''?'' \<and> c \<noteq> CHR ''#'' \<and> c \<noteq> CHR '';'' \<and> \<not> unsafe_url_byte c)"

definition plain_segment :: "string \<Rightarrow> bool" where
  "plain_segment s = (s \<noteq> [] \<and> CHR ''/'' \<notin> set s \<and> s \<noteq> ''.'' \<and> s \<noteq> ''..'')"

text \<open>
  Local paths are built with \<open>os.path.join\<close>, \<open>os.path.dirname\<close>, \<open>os.path.basename\<close>
  and \<open>os.sep\<close>. They are modelled as their POSIX implementations (\<open>posixpath\<close>), where
  the separator is the slash: a component that starts with the separator replaces
  everything joined so far, and a separator is inserted only after a non-empty path
  that does not end with one.
\<close>

definition os_sep :: char where
  "os_sep = CHR ''/''"

definition startswith_sep :: "string \<Rightarrow> bool" where
  "startswith_sep b = (case b of [] \<Rightarrow> False | c # _ \<Rightarrow> c = os_sep)"

definition endswith_sep :: "string \<Rightarrow> bool" where
  "endswith_sep path = (path \<noteq> [] \<and> last path = os_sep)"

fun os_path_join :: "string \<Rightarrow> string list \<Rightarrow> string" where
  "os_path_join path [] = path"
| "os_path_join path (b # bs) =
     (if startswith_sep b then os_path_join b bs
      else if path = [] \<or> endswith_sep path then os_path_join (path @ b) bs
      else os_path_join (path @ [os_sep] @ b) bs)"

definition os_path_dirname :: "string \<Rightarrow> string" where
  "os_path_dirname p =
     (let head = rev (dropWhile (\<lambda>c. c \<noteq> os_sep) (rev p))
      in if head \<noteq> [] \<and> head \<noteq> replicate (length head) os_sep
         then rev (dropWhile (\<lambda>c. c = os_sep) (rev head))
         else head)"


section \<open>The network, the file system and the effects of a download\<close>

text \<open>
  What the outside world answers is a parameter of the model. \<open>session.head\<close> and
  \<open>session.get\<close> either return a response or raise a \<open>requests.RequestException\<close>
  (timeout, failed name resolution, refused connection, any other). A response to
  \<open>get\<close> carries its status, its \<open>content-length\<close> header (absent, an integer, or text
  that \<open>int\<close> rejects), the chunks that \<open>iter_content\<close> yields, and whether the stream
  breaks after them. \<open>os.makedirs\<close> and \<open>open\<close> may fail; \<open>os.makedirs('')\<close> always does.
  The world answers the same request the same way throughout one call.
  What a call does to the world is recorded as the list of its effects, in order.
\<close>

datatype request_failure = Timeout | DNSFailure | ConnectionRefused | OtherRequestError

datatype head_outcome = HeadResponse int | HeadFailed request_failure

datatype length_header = NoLength | Length int | BadLength

datatype get_outcome =
    GetFailed request_failure
  | GetResponse int length_header "string list" bool

datatype xml = Elem string "string option" "xml list"

datatype metadata_outcome =
    MetaFailed request_failure
  | MetaResponse int "xml option"

record world =
  head_answer :: "string \<Rightarrow> head_outcome"
  get_answer :: "string \<Rightarrow> get_outcome"
  metadata_answer :: "string \<Rightarrow> metadata_outcome"
  makedirs_fails :: "string \<Rightarrow> bool"
  open_fails :: "string \<Rightarrow> bool"

datatype event =
    Head string
  | Get string
  | Makedirs string
  | Open string
  | Write string string
  | Progress int int
  | LogInfo
  | LogWarning
  | LogError

definition check_artifact_exists :: "world \<Rightarrow> string \<Rightarrow> bool" where
  "check_artifact_exists w url =
     (case head_answer w url of
        HeadResponse status_code \<Rightarrow> 200 \<le> status_code \<and> status_code < 400
      | HeadFailed _ \<Rightarrow> False)"

text \<open>
  The loop over the chunks of the body: an empty chunk is skipped, every other chunk is
  written and counted, and the callback, when there is one, is told the running count.
\<close>

fun write_chunks :: "string \<Rightarrow> bool \<Rightarrow> int \<Rightarrow> int \<Rightarrow> string list \<Rightarrow> event list" where
  "write_chunks output_path callback total_size downloaded [] = []"
| "write_chunks output_path callback total_size downloaded (chunk # rest) =
     (if chunk \<noteq> [] then
        Write output_path chunk
        # (if callback then [Progress (downloaded + int (length chunk)) total_size] else [])
        @ write_chunks output_path callback total_size (downloaded + int (length chunk)) rest
      else write_chunks output_path callback total_size downloaded rest)"

text \<open>
  \<open>download_file\<close>: every exception inside the \<open>try\<close> block is caught, logged and
  turned into \<open>False\<close>; what was written before it stays written.
  \<open>raise_for_status\<close> raises for a status from 400 to 599.
\<close>

definition download_file :: "world \<Rightarrow> string \<Rightarrow> string \<Rightarrow> bool \<Rightarrow> bool \<times> event list" where
  "download_file w url output_path callback =
     (case get_answer w url of
        GetFailed _ \<Rightarrow> (False, [Get url, LogError])
      | GetResponse status_code content_length chunks broken \<Rightarrow>
          if 400 \<le> status_code \<and> status_code < 600 then (False, [Get url, LogError])
          else if content_length = BadLength then (False, [Get url, LogError])
          else
            (let total_size = (case content_length of Length n \<Rightarrow> n | _ \<Rightarrow> 0);
                 dir = os_path_dirname output_path
             in if dir = [] \<or> makedirs_fails w dir then (False, [Get url, LogError])
                else if open_fails w output_path
                then (False, [Get url, Makedirs dir, LogError])
                else if broken
                then (False, [Get url, Makedirs dir, Open output_path]
                              @ write_chunks output_path callback total_size 0 chunks
                              @ [LogError])
                else (True, [Get url, Makedirs dir, Open output_path]
                             @ write_chunks output_path callback total_size 0 chunks
                             @ [LogInfo])))"

section \<open>RepositoryManager.download_sources and download_binary\<close>

text \<open>
  The two methods are the same code up to the classifier (\<open>"sources"\<close> or none) and the
  file name (\<open>-sources.jar\<close> or \<open>.jar\<close>); \<open>download_loop\<close> is their common \<open>for\<close> loop
  over \<open>self.repositories\<close>, with the final warning and \<open>return None\<close> as its base case.
  \<open>except ValueError\<close> guards the call of the parser only: it catches the format error
  and an unpacking error, while an index error of the parser, and a \<open>ValueError\<close> that
  \<open>urljoin\<close> raises inside the loop, leave the method.
\<close>

datatype uncaught = UncaughtIndexError | UncaughtValueError url_error

fun download_loop ::
  "world \<Rightarrow> (string \<Rightarrow> bool) \<Rightarrow> string option \<Rightarrow> string \<Rightarrow> coordinate \<Rightarrow> string \<Rightarrow> bool
   \<Rightarrow> string list \<Rightarrow> (uncaught + string option) \<times> event list" where
  "download_loop w host_ok classifier suffix (grp, artifact, version) output_dir callback [] =
     (Inr None, [LogWarning])"
| "download_loop w host_ok classifier suffix (grp, artifact, version) output_dir callback
     (repo_url # rest) =
     (case get_artifact_url host_ok repo_url grp artifact version classifier ''jar'' of
        Inl e \<Rightarrow> (Inl (UncaughtValueError e), [])
      | Inr url \<Rightarrow>
          if check_artifact_exists w url then
            (let filename = artifact @ ''-'' @ version @ suffix;
                 output_path = os_path_join output_dir
                   [replace_char CHR ''.'' os_sep grp, artifact, version, filename];
                 (ok, effects) = download_file w url output_path callback
             in if ok then (Inr (Some output_path), Head url # effects)
                else (let (result, later) =
                            download_loop w host_ok classifier suffix (grp, artifact, version)
                              output_dir callback rest
                      in (result, Head url # effects @ later)))
          else (let (result, later) =
                      download_loop w host_ok classifier suffix (grp, artifact, version)
                        output_dir callback rest
                in (result, Head url # later)))"

definition download_with ::
  "string option \<Rightarrow> string \<Rightarrow> world \<Rightarrow> (string \<Rightarrow> bool) \<Rightarrow> string list \<Rightarrow> string \<Rightarrow> string
   \<Rightarrow> bool \<Rightarrow> (uncaught + string option) \<times> event list" where
  "download_with classifier suffix w host_ok repositories dependency output_dir callback =
     (case parse_dependency dependency of
        Inl InvalidFormat \<Rightarrow> (Inr None, [LogError])
      | Inl UnpackError \<Rightarrow> (Inr None, [LogError])
      | Inl IndexError \<Rightarrow> (Inl UncaughtIndexError, [])
      | Inr coordinate \<Rightarrow>
          download_loop w host_ok classifier suffix coordinate output_dir callback repositories)"

definition download_sources ::
  "world \<Rightarrow> (string \<Rightarrow> bool) \<Rightarrow> string list \<Rightarrow> string \<Rightarrow> string \<Rightarrow> bool
   \<Rightarrow> (uncaught + string option) \<times> event list" where
  "download_sources = download_with (Some ''sources'') ''-sources.jar''"

definition download_binary ::
  "world \<Rightarrow> (string \<Rightarrow> bool) \<Rightarrow> string list \<Rightarrow> string \<Rightarrow> string \<Rightarrow> bool
   \<Rightarrow> (uncaught + string option) \<times> event list" where
  "download_binary = download_with None ''.jar''"

text \<open>
  Two readings of a list of effects: the URLs probed with \<open>HEAD\<close> and the URLs fetched
  with \<open>GET\<close>, each in the order of the requests.
\<close>

fun probed :: "event list \<Rightarrow> string list" where
  "probed [] = []"
| "probed (Head url # es) = url # probed es"
| "probed (_ # es) = probed es"


text \<open>A third reading: the bytes written to one file, in order.\<close>

fun written :: "string \<Rightarrow> event list \<Rightarrow> string" where
  "written p [] = []"
| "written p (Write q chunk # es) = (if q = p then chunk @ written p es else written p es)"
| "written p (_ # es) = written p es"

text \<open>
  The path formula of the specification, as a string:
  \<open>{root}/{group with dots replaced by path separators}/{artifact}/{version}/{artifact}-{version}\<close>
  followed by \<open>-sources.jar\<close> or \<open>.jar\<close>. A component is plain when it is not empty and
  neither begins nor ends with the separator.
\<close>

definition spec_local_path :: "string \<Rightarrow> string \<Rightarrow> string \<Rightarrow> string \<Rightarrow> string \<Rightarrow> string" where
  "spec_local_path root grp artifact version suffix =
     root @ [os_sep] @ replace_char CHR ''.'' os_sep grp @ [os_sep] @ artifact @ [os_sep]
     @ version @ [os_sep] @ artifact @ ''-'' @ version @ suffix"

definition plain_component :: "string \<Rightarrow> bool" where
  "plain_component c = (c \<noteq> [] \<and> \<not> startswith_sep c \<and> \<not> endswith_sep c)"

section \<open>RepositoryManager.find_available_versions\<close>

text \<open>
  The metadata document is an element tree: a tag, an optional text and the children.
  \<open>Element.find(tag)\<close> is the first child with that tag, \<open>findall(tag)\<close> all of them.
  A body that \<open>ET.fromstring\<close> rejects is \<open>None\<close>. Every exception raised while one
  repository is handled is caught and logged as a warning; the function returns the
  versions together with the repositories it warned about.
  \<open>sorted(versions, reverse=True)\<close> compares strings by code point; on strings the
  reversed ascending sort is the same list.
\<close>

fun xml_tag :: "xml \<Rightarrow> string" where
  "xml_tag (Elem t _ _) = t"

fun xml_text :: "xml \<Rightarrow> string option" where
  "xml_text (Elem _ x _) = x"

fun xml_children :: "xml \<Rightarrow> xml list" where
  "xml_children (Elem _ _ cs) = cs"

definition xml_find :: "string \<Rightarrow> xml \<Rightarrow> xml option" where
  "xml_find t e = find (\<lambda>c. xml_tag c = t) (xml_children e)"

definition xml_findall :: "string \<Rightarrow> xml \<Rightarrow> xml list" where
  "xml_findall t e = filter (\<lambda>c. xml_tag c = t) (xml_children e)"

fun add_versions :: "xml list \<Rightarrow> string list \<Rightarrow> string list" where
  "add_versions [] versions = versions"
| "add_versions (version # rest) versions =
     (case xml_text version of
        None \<Rightarrow> add_versions rest versions
      | Some t \<Rightarrow>
          if t \<noteq> [] \<and> t \<notin> set versions then add_versions rest (versions @ [t])
          else add_versions rest versions)"

definition document_versions :: "xml \<Rightarrow> string list \<Rightarrow> string list" where
  "document_versions root versions =
     (case xml_find ''versioning'' root of
        None \<Rightarrow> versions
      | Some versioning \<Rightarrow>
          (case xml_find ''versions'' versioning of
             None \<Rightarrow> versions
           | Some versions_elem \<Rightarrow> add_versions (xml_findall ''version'' versions_elem) versions))"

fun collect_versions ::
  "world \<Rightarrow> (string \<Rightarrow> bool) \<Rightarrow> string \<Rightarrow> string \<Rightarrow> string list \<Rightarrow> string list
   \<Rightarrow> string list \<times> string list" where
  "collect_versions w host_ok grp artifact [] versions = (versions, [])"
| "collect_versions w host_ok grp artifact (repo_url # rest) versions =
     (case get_metadata_url host_ok repo_url grp artifact of
        Inl _ \<Rightarrow>
          (let (vs, warned) = collect_versions w host_ok grp artifact rest versions
           in (vs, repo_url # warned))
      | Inr metadata_url \<Rightarrow>
          (case metadata_answer w metadata_url of
             MetaFailed _ \<Rightarrow>
               (let (vs, warned) = collect_versions w host_ok grp artifact rest versions
                in (vs, repo_url # warned))
           | MetaResponse status_code body \<Rightarrow>
               if status_code = 200 then
                 (case body of
                    None \<Rightarrow>
                      (let (vs, warned) = collect_versions w host_ok grp artifact rest versions
                       in (vs, repo_url # warned))
                  | Some root \<Rightarrow>
                      collect_versions w host_ok grp artifact rest
                        (document_versions root versions))
               else collect_versions w host_ok grp artifact rest versions))"

definition find_available_versions ::
  "world \<Rightarrow> (string \<Rightarrow> bool) \<Rightarrow> string list \<Rightarrow> string \<Rightarrow> string \<Rightarrow> string list \<times> string list" where
  "find_available_versions w host_ok repositories grp artifact =
     (let (versions, warned) = collect_versions w host_ok grp artifact repositories []
      in (rev (sort versions), warned))"

section \<open>JavaDecompiler\<close>












section \<open>Example worlds\<close>

text \<open>
  Concrete surroundings on which the functions are run. In \<open>w_mirrors\<close> the repository
  \<open>https://a/\<close> times out on every probe, \<open>https://b/\<close> passes the probe but refuses the
  download, \<open>https://c/\<close> passes the probe and serves a body of three bytes in three
  chunks, the middle one empty; every other address answers 404. In \<open>w_open\<close> every
  probe and every download succeeds. \<open>any_host\<close> accepts every bracketed host.
\<close>

definition any_host :: "string \<Rightarrow> bool" where
  "any_host h = True"

definition startswith :: "string \<Rightarrow> string \<Rightarrow> bool" where
  "startswith s p = (take (length p) s = p)"

definition w_mirrors :: world where
  "w_mirrors =
     \<lparr>head_answer = (\<lambda>u. if startswith u ''https://a/'' then HeadFailed Timeout
                          else if startswith u ''https://b/'' \<or> startswith u ''https://c/''
                          then HeadResponse 200
                          else HeadResponse 404),
      get_answer = (\<lambda>u. if startswith u ''https://c/''
                         then GetResponse 200 (Length 3) [''ab'', [], ''c''] False
                         else GetFailed ConnectionRefused),
      metadata_answer = (\<lambda>u. MetaFailed Timeout),
      makedirs_fails = (\<lambda>d. False),
      open_fails = (\<lambda>p. False)\<rparr>"

definition w_open :: world where
  "w_open =
     \<lparr>head_answer = (\<lambda>u. HeadResponse 200),
      get_answer = (\<lambda>u. GetResponse 200 NoLength [''jar''] False),
      metadata_answer = (\<lambda>u. MetaFailed Timeout),
      makedirs_fails = (\<lambda>d. False),
      open_fails = (\<lambda>p. False)\<rparr>"

text \<open>
  In \<open>w_versions\<close> the metadata of \<open>https://a/\<close> cannot be fetched, \<open>https://b/\<close> lists
  the versions 9.0 and 10.0, \<open>https://c/\<close> lists 10.0, an empty version and 9.1, and
  every other address answers 404.
\<close>

definition metadata_doc :: "string list \<Rightarrow> xml" where
  "metadata_doc versions =
     Elem ''metadata'' None
       [Elem ''groupId'' (Some ''g'') [],
        Elem ''versioning'' None
          [Elem ''latest'' (Some ''10.0'') [],
           Elem ''versions'' None (map (\<lambda>v. Elem ''version'' (Some v) []) versions)]]"

definition w_versions :: world where
  "w_versions =
     \<lparr>head_answer = (\<lambda>u. HeadResponse 404),
      get_answer = (\<lambda>u. GetFailed ConnectionRefused),
      metadata_answer =
        (\<lambda>u. if startswith u ''https://a/'' then MetaFailed Timeout
             else if startswith u ''https://b/''
             then MetaResponse 200 (Some (metadata_doc [''9.0'', ''10.0'']))
             else if startswith u ''https://c/''
             then MetaResponse 200 (Some (metadata_doc [''10.0'', [], ''9.1'']))
             else MetaResponse 404 None),
      makedirs_fails = (\<lambda>d. False),
      open_fails = (\<lambda>p. False)\<rparr>"



section \<open>Facts about splitting and joining\<close>

lemma split_on_not_Nil: "split_on c s \<noteq> []"
  by (induction s) (auto split: list.splits)

lemma length_split_on: "length (split_on c s) = Suc (count_char c s)"
  by (induction s) (auto split: list.splits simp: split_on_not_Nil)

lemma count_char_zero_iff: "count_char c s = 0 \<longleftrightarrow> c \<notin> set s"
  by (induction s) auto

lemma count_char_append: "count_char c (xs @ ys) = count_char c xs + count_char c ys"
  by (induction xs) auto

lemma split_on_no_sep: "c \<notin> set p \<Longrightarrow> split_on c p = [p]"
  by (induction p) auto

lemma split_on_append: "c \<notin> set p \<Longrightarrow> split_on c (p @ c # s) = p # split_on c s"
  by (induction p) auto

lemma split_on_pieces: "p \<in> set (split_on c s) \<Longrightarrow> c \<notin> set p"
proof (induction s arbitrary: p)
  case Nil
  then show ?case by simp
next
  case (Cons x xs)
  show ?case
  proof (cases "x = c")
    case True
    with Cons show ?thesis by auto
  next
    case False
    obtain q qs where q: "split_on c xs = q # qs"
      using split_on_not_Nil [of c xs] by (cases "split_on c xs") auto
    with False Cons.prems have "p = x # q \<or> p \<in> set qs" by auto
    then show ?thesis
    proof
      assume "p = x # q"
      moreover have "c \<notin> set q" using Cons.IH [of q] q by simp
      ultimately show ?thesis using False by auto
    next
      assume "p \<in> set qs"
      then show ?thesis using Cons.IH [of p] q by simp
    qed
  qed
qed

lemma join_split_on: "join_with [c] (split_on c s) = s"
proof (induction s)
  case Nil
  then show ?case by simp
next
  case (Cons x xs)
  obtain q qs where q: "split_on c xs = q # qs"
    using split_on_not_Nil [of c xs] by (cases "split_on c xs") auto
  show ?case
  proof (cases "x = c")
    case True
    with Cons q show ?thesis by simp
  next
    case False
    with Cons q show ?thesis by (cases qs) auto
  qed
qed

lemma join_with_snoc:
  "ps \<noteq> [] \<Longrightarrow> join_with sep (ps @ [p]) = join_with sep ps @ sep @ p"
  by (induction sep ps rule: join_with.induct) auto

lemma join_butlast_last:
  assumes "2 \<le> length ps"
  shows "join_with sep ps = join_with sep (butlast ps) @ sep @ last ps"
proof -
  from assms have ne: "ps \<noteq> []" and bne: "butlast ps \<noteq> []"
    by (auto simp: butlast_conv_take)
  have "join_with sep (butlast ps @ [last ps]) = join_with sep (butlast ps) @ sep @ last ps"
    using bne by (rule join_with_snoc)
  with ne show ?thesis by simp
qed

text \<open>The three pieces of a string with exactly two separators.\<close>

lemma split_on_two:
  assumes "count_char c s = 2"
  obtains a b d where "split_on c s = [a, b, d]" and "s = a @ c # b @ c # d"
    and "c \<notin> set a" and "c \<notin> set b" and "c \<notin> set d"
proof -
  have "length (split_on c s) = 3" using assms by (simp add: length_split_on)
  then obtain a b d where sp: "split_on c s = [a, b, d]"
    by (auto simp: length_Suc_conv numeral_3_eq_3)
  have "join_with [c] (split_on c s) = s" by (rule join_split_on)
  with sp have "s = a @ c # b @ c # d" by simp
  moreover have "c \<notin> set a" "c \<notin> set b" "c \<notin> set d"
    using split_on_pieces [of _ c s] sp by auto
  ultimately show ?thesis using sp that by blast
qed

lemma split_on_one:
  assumes "count_char c s = 1"
  obtains a b where "split_on c s = [a, b]" and "s = a @ c # b"
    and "c \<notin> set a" and "c \<notin> set b"
proof -
  have "length (split_on c s) = 2" using assms by (simp add: length_split_on)
  then obtain a b where sp: "split_on c s = [a, b]"
    by (auto simp: length_Suc_conv numeral_2_eq_2)
  have "join_with [c] (split_on c s) = s" by (rule join_split_on)
  with sp have "s = a @ c # b" by simp
  moreover have "c \<notin> set a" "c \<notin> set b"
    using split_on_pieces [of _ c s] sp by auto
  ultimately show ?thesis using sp that by blast
qed

text \<open>Splitting at the last dot: what \<open>'.'.join(parts[:-1])\<close> and \<open>parts[-1]\<close> compute.\<close>

lemma split_last_dot:
  assumes "c \<in> set s"
  shows "s = join_with [c] (butlast (split_on c s)) @ c # last (split_on c s)
         \<and> c \<notin> set (last (split_on c s))"
proof -
  have "count_char c s \<noteq> 0" using assms by (simp add: count_char_zero_iff)
  then have len: "2 \<le> length (split_on c s)" by (simp add: length_split_on)
  have "join_with [c] (split_on c s)
        = join_with [c] (butlast (split_on c s)) @ [c] @ last (split_on c s)"
    using len by (rule join_butlast_last)
  then have "s = join_with [c] (butlast (split_on c s)) @ c # last (split_on c s)"
    by (simp add: join_split_on)
  moreover have "last (split_on c s) \<in> set (split_on c s)"
    by (simp add: split_on_not_Nil)
  then have "c \<notin> set (last (split_on c s))" by (rule split_on_pieces)
  ultimately show ?thesis by simp
qed

section \<open>The parser\<close>

lemma parse_two_colons:
  assumes "count_char CHR '':'' s = 2"
  shows "\<exists>g a v. split_on CHR '':'' s = [g, a, v] \<and> parse_dependency s = Inr (g, a, v)
           \<and> s = g @ '':'' @ a @ '':'' @ v
           \<and> CHR '':'' \<notin> set g \<and> CHR '':'' \<notin> set a \<and> CHR '':'' \<notin> set v"
proof -
  from assms obtain g a v where sp: "split_on CHR '':'' s = [g, a, v]"
    and s: "s = g @ CHR '':'' # a @ CHR '':'' # v"
    and no: "CHR '':'' \<notin> set g" "CHR '':'' \<notin> set a" "CHR '':'' \<notin> set v"
    by (rule split_on_two)
  have "parse_dependency s = Inr (g, a, v)"
    using assms sp by (simp add: parse_dependency_def)
  with sp s no show ?thesis by simp
qed

lemma left_side:
  assumes "s = l @ c # r" and "c \<notin> set l"
  shows "takeWhile (\<lambda>x. x \<noteq> c) s = l"
  using assms by (auto simp: takeWhile_tail)

lemma parse_one_colon:
  assumes "count_char CHR '':'' s = 1"
  shows "\<exists>l v. split_on CHR '':'' s = [l, v] \<and> s = l @ '':'' @ v
           \<and> takeWhile (\<lambda>c. c \<noteq> CHR '':'') s = l
           \<and> CHR '':'' \<notin> set l \<and> CHR '':'' \<notin> set v
           \<and> parse_dependency s =
               (if CHR ''.'' \<in> set l
                then Inr (join_with ''.'' (butlast (split_on CHR ''.'' l)),
                          last (split_on CHR ''.'' l), v)
                else Inl InvalidFormat)"
proof -
  from assms obtain l v where sp: "split_on CHR '':'' s = [l, v]"
    and s: "s = l @ CHR '':'' # v"
    and no: "CHR '':'' \<notin> set l" "CHR '':'' \<notin> set v"
    by (rule split_on_one)
  have tw: "takeWhile (\<lambda>c. c \<noteq> CHR '':'') s = l"
    using s no(1) by (rule left_side)
  have "parse_dependency s =
               (if CHR ''.'' \<in> set l
                then Inr (join_with ''.'' (butlast (split_on CHR ''.'' l)),
                          last (split_on CHR ''.'' l), v)
                else Inl InvalidFormat)"
    using assms sp by (simp add: parse_dependency_def split_on_not_Nil Let_def)
  with sp s no tw show ?thesis by simp
qed

lemma parse_other_count:
  assumes "count_char CHR '':'' s \<noteq> 1" and "count_char CHR '':'' s \<noteq> 2"
  shows "parse_dependency s = Inl InvalidFormat"
  using assms by (simp add: parse_dependency_def)

text \<open>
  Claim C2. An input with exactly two colons parses, and the coordinate consists of its
  three colon-separated fields, unchanged. An input with exactly one colon whose left
  side contains a dot parses to the part of the left side before its last dot, the part
  after that dot, and the part after the colon.
\<close>

theorem parse_dependency_fields:
  "(count_char CHR '':'' s = 2 \<longrightarrow>
      (\<exists>g a v. parse_dependency s = Inr (g, a, v) \<and> s = g @ '':'' @ a @ '':'' @ v
         \<and> CHR '':'' \<notin> set g \<and> CHR '':'' \<notin> set a \<and> CHR '':'' \<notin> set v))
   \<and> (count_char CHR '':'' s = 1 \<and> CHR ''.'' \<in> set (takeWhile (\<lambda>c. c \<noteq> CHR '':'') s) \<longrightarrow>
      (\<exists>g a v. parse_dependency s = Inr (g, a, v) \<and> s = g @ ''.'' @ a @ '':'' @ v
         \<and> CHR ''.'' \<notin> set a
         \<and> CHR '':'' \<notin> set g \<and> CHR '':'' \<notin> set a \<and> CHR '':'' \<notin> set v))"
proof (intro conjI impI)
  assume "count_char CHR '':'' s = 2"
  then show "\<exists>g a v. parse_dependency s = Inr (g, a, v) \<and> s = g @ '':'' @ a @ '':'' @ v
         \<and> CHR '':'' \<notin> set g \<and> CHR '':'' \<notin> set a \<and> CHR '':'' \<notin> set v"
    using parse_two_colons [of s] by blast
next
  assume h: "count_char CHR '':'' s = 1 \<and> CHR ''.'' \<in> set (takeWhile (\<lambda>c. c \<noteq> CHR '':'') s)"
  then obtain l v where s: "s = l @ '':'' @ v"
    and tw: "takeWhile (\<lambda>c. c \<noteq> CHR '':'') s = l"
    and no: "CHR '':'' \<notin> set l" "CHR '':'' \<notin> set v"
    and p: "parse_dependency s =
               (if CHR ''.'' \<in> set l
                then Inr (join_with ''.'' (butlast (split_on CHR ''.'' l)),
                          last (split_on CHR ''.'' l), v)
                else Inl InvalidFormat)"
    using parse_one_colon [of s] by blast
  define g where "g = join_with ''.'' (butlast (split_on CHR ''.'' l))"
  define a where "a = last (split_on CHR ''.'' l)"
  from h tw have dot: "CHR ''.'' \<in> set l" by simp
  then have l: "l = g @ CHR ''.'' # a" and na: "CHR ''.'' \<notin> set a"
    using split_last_dot [of "CHR ''.''" l] by (simp_all add: g_def a_def)
  from p dot have "parse_dependency s = Inr (g, a, v)" by (simp add: g_def a_def)
  moreover from s l have "s = g @ ''.'' @ a @ '':'' @ v" by simp
  moreover from no(1) l have "CHR '':'' \<notin> set g" "CHR '':'' \<notin> set a" by auto
  ultimately show "\<exists>g a v. parse_dependency s = Inr (g, a, v) \<and> s = g @ ''.'' @ a @ '':'' @ v
         \<and> CHR ''.'' \<notin> set a
         \<and> CHR '':'' \<notin> set g \<and> CHR '':'' \<notin> set a \<and> CHR '':'' \<notin> set v"
    using na no(2) by blast
qed

theorem parse_dependency_fields_witness:
  "count_char CHR '':'' ''com.google.gson:gson:2.8.9'' = 2
   \<and> parse_dependency ''com.google.gson:gson:2.8.9'' = Inr (''com.google.gson'', ''gson'', ''2.8.9'')
   \<and> count_char CHR '':'' ''com.google.gson:2.8.9'' = 1
   \<and> CHR ''.'' \<in> set (takeWhile (\<lambda>c. c \<noteq> CHR '':'') ''com.google.gson:2.8.9'')
   \<and> parse_dependency ''com.google.gson:2.8.9'' = Inr (''com.google'', ''gson'', ''2.8.9'')"
  using parse_dependency_fields [of "''com.google.gson:gson:2.8.9''"]
    parse_dependency_fields [of "''com.google.gson:2.8.9''"]
  by (simp add: parse_dependency_def)

text \<open>
  Claim C3. The parser fails with the format error exactly when the number of colons is
  neither one nor two, or it is one and the left side has no dot; on every string it
  returns either a coordinate or the format error, so neither an unpacking nor an index
  error can leave it.
\<close>

theorem parse_dependency_errors:
  "(parse_dependency s = Inl InvalidFormat \<longleftrightarrow>
      (count_char CHR '':'' s \<noteq> 1 \<and> count_char CHR '':'' s \<noteq> 2)
      \<or> (count_char CHR '':'' s = 1
          \<and> CHR ''.'' \<notin> set (takeWhile (\<lambda>c. c \<noteq> CHR '':'') s)))
   \<and> (parse_dependency s = Inl InvalidFormat \<or> (\<exists>coordinate. parse_dependency s = Inr coordinate))"
proof -
  consider (two) "count_char CHR '':'' s = 2" | (one) "count_char CHR '':'' s = 1"
    | (other) "count_char CHR '':'' s \<noteq> 1" "count_char CHR '':'' s \<noteq> 2"
    by blast
  then show ?thesis
  proof cases
    case two
    then show ?thesis using parse_two_colons [of s] by auto
  next
    case one
    then show ?thesis using parse_one_colon [of s] by auto
  next
    case other
    then show ?thesis using parse_other_count [of s] by simp
  qed
qed

theorem parse_dependency_errors_witness:
  "parse_dependency ''nonsense'' = Inl InvalidFormat
   \<and> count_char CHR '':'' ''nonsense'' \<noteq> 1 \<and> count_char CHR '':'' ''nonsense'' \<noteq> 2
   \<and> parse_dependency ''gson:2.8.9'' = Inl InvalidFormat
   \<and> count_char CHR '':'' ''gson:2.8.9'' = 1
   \<and> CHR ''.'' \<notin> set (takeWhile (\<lambda>c. c \<noteq> CHR '':'') ''gson:2.8.9'')"
  using parse_dependency_errors [of "''nonsense''"] parse_dependency_errors [of "''gson:2.8.9''"]
  by (simp add: parse_dependency_def)

section \<open>The coordinate invariant\<close>

text \<open>
  Claim C9, as stated, fails: the parser checks no field for emptiness, and the input
  of two colons alone parses to three empty fields.
\<close>

theorem parse_dependency_empty_fields_counterexample:
  "parse_dependency ''::'' = Inr ([], [], [])"
  by (simp add: parse_dependency_def)

lemma join_with_Nil_iff:
  "join_with [c] ps = [] \<longleftrightarrow> ps = [] \<or> ps = [[]]"
  by (induction "[c]" ps rule: join_with.induct) auto

lemma hd_split_on_dot:
  assumes "c \<in> set l"
  shows "butlast (split_on c l) = [[]] \<longleftrightarrow> hd l = c \<and> count_char c l = 1"
proof -
  have len: "length (split_on c l) = Suc (count_char c l)" by (rule length_split_on)
  from assms obtain x xs where l: "l = x # xs" by (cases l) auto
  obtain q qs where q: "split_on c xs = q # qs"
    using split_on_not_Nil [of c xs] by (cases "split_on c xs") auto
  have lq: "length (q # qs) = Suc (count_char c xs)" using length_split_on [of c xs] q by simp
  show ?thesis
  proof (cases "x = c")
    case True
    then have "butlast (split_on c l) = [] # butlast (q # qs)" using l q by simp
    moreover have "butlast (q # qs) = [] \<longleftrightarrow> count_char c xs = 0" using lq by (cases qs) auto
    ultimately show ?thesis using True l by auto
  next
    case False
    then have sp: "split_on c l = (x # q) # qs" using l q by simp
    have "butlast ((x # q) # qs) \<noteq> [[]]" by (cases qs) auto
    with sp False l show ?thesis by simp
  qed
qed

text \<open>
  Claim C9, amended. A successful parse has three non-empty fields exactly when, in the
  two-colon form, no colon-separated piece of the input is empty, and, in the one-colon
  form, the input does not end with its colon, the left side does not end with a dot,
  and the left side does not begin with its only dot.
\<close>

theorem parse_dependency_nonempty_fields:
  assumes "parse_dependency s = Inr (g, a, v)"
  shows "(g \<noteq> [] \<and> a \<noteq> [] \<and> v \<noteq> []) \<longleftrightarrow>
         (if count_char CHR '':'' s = 2 then [] \<notin> set (split_on CHR '':'' s)
          else last s \<noteq> CHR '':''
               \<and> last (takeWhile (\<lambda>c. c \<noteq> CHR '':'') s) \<noteq> CHR ''.''
               \<and> \<not> (hd s = CHR ''.''
                     \<and> count_char CHR ''.'' (takeWhile (\<lambda>c. c \<noteq> CHR '':'') s) = 1))"
proof -
  consider (two) "count_char CHR '':'' s = 2" | (one) "count_char CHR '':'' s = 1"
    | (other) "count_char CHR '':'' s \<noteq> 1" "count_char CHR '':'' s \<noteq> 2"
    by blast
  then show ?thesis
  proof cases
    case two
    then show ?thesis using parse_two_colons [of s] assms by auto
  next
    case other
    then show ?thesis using parse_other_count [of s] assms by simp
  next
    case one
    then obtain l r where s: "s = l @ '':'' @ r"
      and tw: "takeWhile (\<lambda>c. c \<noteq> CHR '':'') s = l"
      and p: "parse_dependency s =
               (if CHR ''.'' \<in> set l
                then Inr (join_with ''.'' (butlast (split_on CHR ''.'' l)),
                          last (split_on CHR ''.'' l), r)
                else Inl InvalidFormat)"
      using parse_one_colon [of s] by blast
    from p assms have dot: "CHR ''.'' \<in> set l" by (auto split: if_splits)
    with p assms have g: "g = join_with ''.'' (butlast (split_on CHR ''.'' l))"
      and a: "a = last (split_on CHR ''.'' l)" and v: "v = r" by simp_all
    from dot have l: "l = g @ CHR ''.'' # a"
      using split_last_dot [of "CHR ''.''" l] by (simp add: g a)
    from dot have lne: "l \<noteq> []" by auto
    have "count_char CHR ''.'' l \<noteq> 0" using dot by (simp add: count_char_zero_iff)
    then have "butlast (split_on CHR ''.'' l) \<noteq> []"
      using length_split_on [of "CHR ''.''" l] by (cases "split_on CHR ''.'' l") auto
    then have "g = [] \<longleftrightarrow> butlast (split_on CHR ''.'' l) = [[]]"
      using join_with_Nil_iff [of "CHR ''.''" "butlast (split_on CHR ''.'' l)"] by (simp add: g)
    then have g_iff: "g = [] \<longleftrightarrow> hd l = CHR ''.'' \<and> count_char CHR ''.'' l = 1"
      using hd_split_on_dot [OF dot] by simp
    have na: "CHR ''.'' \<notin> set a" using split_last_dot [of "CHR ''.''" l] dot by (simp add: a)
    have a_iff: "a = [] \<longleftrightarrow> last l = CHR ''.''"
    proof
      assume "a = []" with l show "last l = CHR ''.''" by simp
    next
      assume h: "last l = CHR ''.''"
      show "a = []"
      proof (rule ccontr)
        assume "a \<noteq> []"
        then have "last l = last a" using l by simp
        moreover have "last a \<in> set a" using \<open>a \<noteq> []\<close> by simp
        ultimately show False using h na by simp
      qed
    qed
    have v_iff: "v = [] \<longleftrightarrow> last s = CHR '':''"
    proof
      assume "v = []" with s v show "last s = CHR '':''" by simp
    next
      assume h: "last s = CHR '':''"
      show "v = []"
      proof (rule ccontr)
        assume "v \<noteq> []"
        then have "last s = last r" using s v by simp
        moreover have "last r \<in> set r" using \<open>v \<noteq> []\<close> v by simp
        moreover have "CHR '':'' \<notin> set r"
          using one s by (auto simp: count_char_append count_char_zero_iff split: if_splits)
        ultimately show False using h by simp
      qed
    qed
    have "hd s = hd l" using s lne by simp
    with one g_iff a_iff v_iff tw show ?thesis by auto
  qed
qed

theorem parse_dependency_nonempty_fields_witness:
  "parse_dependency ''com.google.gson:2.8.9'' = Inr (''com.google'', ''gson'', ''2.8.9'')
   \<and> parse_dependency ''.gson:2.8.9'' = Inr ([], ''gson'', ''2.8.9'')
   \<and> hd ''.gson:2.8.9'' = CHR ''.''
   \<and> count_char CHR ''.'' (takeWhile (\<lambda>c. c \<noteq> CHR '':'') ''.gson:2.8.9'') = 1"
  using parse_dependency_nonempty_fields [of "''com.google.gson:2.8.9''" "''com.google''" "''gson''" "''2.8.9''"]
    parse_dependency_nonempty_fields [of "''.gson:2.8.9''" "[]" "''gson''" "''2.8.9''"]
  by (simp add: parse_dependency_def)

section \<open>The validator and the parser\<close>

text \<open>
  Claim C10, as stated, fails: the validator rejects an input with an empty version,
  which the parser accepts.
\<close>

theorem validator_rejects_parsed_counterexample:
  "validate_dependency_format ''g:a:'' = False
   \<and> parse_dependency ''g:a:'' = Inr (''g'', ''a'', [])"
  by (simp add: validate_dependency_format_def parse_dependency_def strip_def)

text \<open>
  Claim C10, amended. The validator accepts a string exactly when the parser succeeds on
  it, the parsed version is not blank and, in the two-colon form, the group and the
  artifact are not blank either. So what the validator accepts always parses.
\<close>

theorem validate_dependency_format_iff:
  "validate_dependency_format s \<longleftrightarrow>
     (\<exists>g a v. parse_dependency s = Inr (g, a, v) \<and> strip v \<noteq> []
        \<and> (count_char CHR '':'' s = 2 \<longrightarrow> strip g \<noteq> [] \<and> strip a \<noteq> []))"
proof -
  have len: "length (split_on CHR '':'' s) = Suc (count_char CHR '':'' s)"
    by (rule length_split_on)
  consider (two) "count_char CHR '':'' s = 2" | (one) "count_char CHR '':'' s = 1"
    | (other) "count_char CHR '':'' s \<noteq> 1" "count_char CHR '':'' s \<noteq> 2"
    by blast
  then show ?thesis
  proof cases
    case two
    then obtain g a v where sp: "split_on CHR '':'' s = [g, a, v]"
      and p: "parse_dependency s = Inr (g, a, v)"
      using parse_two_colons [of s] by blast
    from two have "s \<noteq> []" by auto
    then have "validate_dependency_format s
               \<longleftrightarrow> strip g \<noteq> [] \<and> strip a \<noteq> [] \<and> strip v \<noteq> []"
      using sp by (simp add: validate_dependency_format_def)
    with p two show ?thesis by auto
  next
    case one
    then obtain l v where sp: "split_on CHR '':'' s = [l, v]"
      and p: "parse_dependency s =
               (if CHR ''.'' \<in> set l
                then Inr (join_with ''.'' (butlast (split_on CHR ''.'' l)),
                          last (split_on CHR ''.'' l), v)
                else Inl InvalidFormat)"
      using parse_one_colon [of s] by blast
    from one have "s \<noteq> []" by auto
    then have "validate_dependency_format s \<longleftrightarrow> CHR ''.'' \<in> set l \<and> strip v \<noteq> []"
      using sp by (simp add: validate_dependency_format_def)
    with p one show ?thesis by auto
  next
    case other
    then have "parse_dependency s = Inl InvalidFormat" by (rule parse_other_count)
    moreover have "\<not> validate_dependency_format s"
      using other len by (simp add: validate_dependency_format_def Let_def)
    ultimately show ?thesis by simp
  qed
qed

theorem validate_dependency_format_iff_witness:
  "validate_dependency_format ''com.google.gson:gson:2.8.9''
   \<and> parse_dependency ''com.google.gson:gson:2.8.9'' = Inr (''com.google.gson'', ''gson'', ''2.8.9'')
   \<and> count_char CHR '':'' ''com.google.gson:gson:2.8.9'' = 2
   \<and> strip ''com.google.gson'' \<noteq> [] \<and> strip ''gson'' \<noteq> [] \<and> strip ''2.8.9'' \<noteq> []"
  using validate_dependency_format_iff [of "''com.google.gson:gson:2.8.9''"]
  by (simp add: parse_dependency_def strip_def py_isspace_def)

section \<open>One step of the loop over the repositories\<close>

lemma download_loop_raise:
  assumes "get_artifact_url host_ok repo g a v cls ''jar'' = Inl e"
  shows "download_loop w host_ok cls suffix (g, a, v) out cb (repo # rest)
         = (Inl (UncaughtValueError e), [])"
  using assms by simp

lemma download_loop_skip:
  assumes "get_artifact_url host_ok repo g a v cls ''jar'' = Inr url"
    and "\<not> check_artifact_exists w url"
  shows "download_loop w host_ok cls suffix (g, a, v) out cb (repo # rest)
         = (fst (download_loop w host_ok cls suffix (g, a, v) out cb rest),
            Head url # snd (download_loop w host_ok cls suffix (g, a, v) out cb rest))"
  using assms by (simp add: case_prod_unfold Let_def)

lemma download_loop_success:
  assumes "get_artifact_url host_ok repo g a v cls ''jar'' = Inr url"
    and "check_artifact_exists w url"
    and "fst (download_file w url
           (os_path_join out [replace_char CHR ''.'' os_sep g, a, v, a @ ''-'' @ v @ suffix]) cb)"
  shows "download_loop w host_ok cls suffix (g, a, v) out cb (repo # rest)
         = (Inr (Some (os_path_join out
                   [replace_char CHR ''.'' os_sep g, a, v, a @ ''-'' @ v @ suffix])),
            Head url # snd (download_file w url
                (os_path_join out [replace_char CHR ''.'' os_sep g, a, v, a @ ''-'' @ v @ suffix])
                cb))"
  using assms by (simp add: case_prod_unfold Let_def)

lemma download_loop_failed:
  assumes "get_artifact_url host_ok repo g a v cls ''jar'' = Inr url"
    and "check_artifact_exists w url"
    and "\<not> fst (download_file w url
           (os_path_join out [replace_char CHR ''.'' os_sep g, a, v, a @ ''-'' @ v @ suffix]) cb)"
  shows "download_loop w host_ok cls suffix (g, a, v) out cb (repo # rest)
         = (fst (download_loop w host_ok cls suffix (g, a, v) out cb rest),
            Head url # snd (download_file w url
                (os_path_join out [replace_char CHR ''.'' os_sep g, a, v, a @ ''-'' @ v @ suffix])
                cb)
            @ snd (download_loop w host_ok cls suffix (g, a, v) out cb rest))"
  using assms by (simp add: case_prod_unfold Let_def)

declare download_loop.simps(2) [simp del]

section \<open>The existence check\<close>

text \<open>
  Claim C4. The existence check answers yes exactly when the probe returned a status
  from 200 up to, but not including, 400. When the probe raises a request failure the
  check answers no, and the loop over the repositories then goes on with the remaining
  repositories, having done nothing but the probe.
\<close>

theorem check_artifact_exists_iff:
  "(check_artifact_exists w url \<longleftrightarrow>
      (\<exists>status. head_answer w url = HeadResponse status \<and> 200 \<le> status \<and> status < 400))
   \<and> (\<forall>failure. head_answer w url = HeadFailed failure \<longrightarrow> \<not> check_artifact_exists w url)
   \<and> (\<forall>failure.
         get_artifact_url host_ok repo g a v cls ''jar'' = Inr url
         \<and> head_answer w url = HeadFailed failure \<longrightarrow>
         download_loop w host_ok cls suffix (g, a, v) out cb (repo # rest)
         = (fst (download_loop w host_ok cls suffix (g, a, v) out cb rest),
            Head url # snd (download_loop w host_ok cls suffix (g, a, v) out cb rest)))"
proof (intro conjI allI impI)
  show "check_artifact_exists w url \<longleftrightarrow>
      (\<exists>status. head_answer w url = HeadResponse status \<and> 200 \<le> status \<and> status < 400)"
    by (cases "head_answer w url") (simp_all add: check_artifact_exists_def)
next
  fix failure
  assume "head_answer w url = HeadFailed failure"
  then show "\<not> check_artifact_exists w url" by (simp add: check_artifact_exists_def)
next
  fix failure
  assume h: "get_artifact_url host_ok repo g a v cls ''jar'' = Inr url
             \<and> head_answer w url = HeadFailed failure"
  then have "\<not> check_artifact_exists w url" by (simp add: check_artifact_exists_def)
  with h show "download_loop w host_ok cls suffix (g, a, v) out cb (repo # rest)
         = (fst (download_loop w host_ok cls suffix (g, a, v) out cb rest),
            Head url # snd (download_loop w host_ok cls suffix (g, a, v) out cb rest))"
    by (intro download_loop_skip) simp_all
qed

theorem check_artifact_exists_iff_witness:
  "get_artifact_url any_host ''https://a/'' ''g'' ''a'' ''1'' (Some ''sources'') ''jar''
     = Inr ''https://a/g/a/1/a-1-sources.jar''
   \<and> head_answer w_mirrors ''https://a/g/a/1/a-1-sources.jar'' = HeadFailed Timeout
   \<and> \<not> check_artifact_exists w_mirrors ''https://a/g/a/1/a-1-sources.jar''
   \<and> head_answer w_mirrors ''https://b/g/a/1/a-1-sources.jar'' = HeadResponse 200
   \<and> check_artifact_exists w_mirrors ''https://b/g/a/1/a-1-sources.jar''
   \<and> probed (snd (download_loop w_mirrors any_host (Some ''sources'') ''-sources.jar''
                     (''g'', ''a'', ''1'') ''out'' False [''https://a/'', ''https://b/'']))
     = [''https://a/g/a/1/a-1-sources.jar'', ''https://b/g/a/1/a-1-sources.jar'']"
proof -
  have url: "get_artifact_url any_host ''https://a/'' ''g'' ''a'' ''1'' (Some ''sources'') ''jar''
     = Inr ''https://a/g/a/1/a-1-sources.jar''"
    by code_simp
  have ha: "head_answer w_mirrors ''https://a/g/a/1/a-1-sources.jar'' = HeadFailed Timeout"
    by code_simp
  have hb: "head_answer w_mirrors ''https://b/g/a/1/a-1-sources.jar'' = HeadResponse 200"
    by code_simp
  have rest: "probed (snd (download_loop w_mirrors any_host (Some ''sources'') ''-sources.jar''
                     (''g'', ''a'', ''1'') ''out'' False [''https://b/'']))
     = [''https://b/g/a/1/a-1-sources.jar'']"
    by code_simp
  from check_artifact_exists_iff [of w_mirrors "''https://a/g/a/1/a-1-sources.jar''"
      any_host "''https://a/''" "''g''" "''a''" "''1''" "Some ''sources''" "''-sources.jar''"
      "''out''" False "[''https://b/'']"] url ha
  have a: "\<not> check_artifact_exists w_mirrors ''https://a/g/a/1/a-1-sources.jar''"
    and loop: "download_loop w_mirrors any_host (Some ''sources'') ''-sources.jar''
                 (''g'', ''a'', ''1'') ''out'' False [''https://a/'', ''https://b/'']
         = (fst (download_loop w_mirrors any_host (Some ''sources'') ''-sources.jar''
                   (''g'', ''a'', ''1'') ''out'' False [''https://b/'']),
            Head ''https://a/g/a/1/a-1-sources.jar''
            # snd (download_loop w_mirrors any_host (Some ''sources'') ''-sources.jar''
                   (''g'', ''a'', ''1'') ''out'' False [''https://b/'']))"
    by blast+
  from check_artifact_exists_iff [of w_mirrors "''https://b/g/a/1/a-1-sources.jar''"] hb
  have b: "check_artifact_exists w_mirrors ''https://b/g/a/1/a-1-sources.jar''"
    by simp
  from loop rest have "probed (snd (download_loop w_mirrors any_host (Some ''sources'')
                     ''-sources.jar'' (''g'', ''a'', ''1'') ''out'' False
                     [''https://a/'', ''https://b/'']))
     = [''https://a/g/a/1/a-1-sources.jar'', ''https://b/g/a/1/a-1-sources.jar'']"
    by simp
  with url ha a hb b show ?thesis by blast
qed

section \<open>The order of the repositories\<close>











section \<open>The path of a downloaded file\<close>

lemma endswith_sep_append: "c \<noteq> [] \<Longrightarrow> endswith_sep (x @ c) = endswith_sep c"
  by (simp add: endswith_sep_def)

lemma startswith_sep_append: "c \<noteq> [] \<Longrightarrow> startswith_sep (c @ x) = startswith_sep c"
  by (cases c) (simp_all add: startswith_sep_def)

lemma os_path_join_plain:
  assumes "out \<noteq> []" and "\<not> endswith_sep out"
    and "plain_component g'" and "plain_component a" and "plain_component v"
    and "\<not> startswith_sep f"
  shows "os_path_join out [g', a, v, f]
         = out @ [os_sep] @ g' @ [os_sep] @ a @ [os_sep] @ v @ [os_sep] @ f"
proof -
  from assms(3) have g: "g' \<noteq> []" "\<not> startswith_sep g'" "\<not> endswith_sep g'"
    by (simp_all add: plain_component_def)
  from assms(4) have a: "a \<noteq> []" "\<not> startswith_sep a" "\<not> endswith_sep a"
    by (simp_all add: plain_component_def)
  from assms(5) have v: "v \<noteq> []" "\<not> startswith_sep v" "\<not> endswith_sep v"
    by (simp_all add: plain_component_def)
  have e1: "\<not> endswith_sep (out @ os_sep # g')"
    using g endswith_sep_append [of g' "out @ [os_sep]"] by simp
  have e2: "\<not> endswith_sep (out @ os_sep # g' @ os_sep # a)"
    using a endswith_sep_append [of a "out @ os_sep # g' @ [os_sep]"] by simp
  have e3: "\<not> endswith_sep (out @ os_sep # g' @ os_sep # a @ os_sep # v)"
    using v endswith_sep_append [of v "out @ os_sep # g' @ os_sep # a @ [os_sep]"] by simp
  show ?thesis
    using assms(1,2,6) g a v e1 e2 e3 by simp
qed

lemma download_file_True:
  assumes "fst (download_file w url p cb)"
  shows "\<exists>status len chunks.
           get_answer w url = GetResponse status len chunks False
           \<and> snd (download_file w url p cb)
             = [Get url, Makedirs (os_path_dirname p), Open p]
               @ write_chunks p cb (case len of Length n \<Rightarrow> n | _ \<Rightarrow> 0) 0 chunks
               @ [LogInfo]"
proof (cases "get_answer w url")
  case (GetFailed f)
  with assms show ?thesis by (simp add: download_file_def)
next
  case (GetResponse status len chunks broken)
  with assms have "\<not> broken" and
    "snd (download_file w url p cb)
             = [Get url, Makedirs (os_path_dirname p), Open p]
               @ write_chunks p cb (case len of Length n \<Rightarrow> n | _ \<Rightarrow> 0) 0 chunks
               @ [LogInfo]"
    by (simp_all add: download_file_def Let_def split: if_splits)
  with GetResponse show ?thesis by simp
qed

lemma written_write_chunks: "written p (write_chunks p cb tot n chunks) = concat chunks"
  by (induction chunks arbitrary: n) auto

lemma download_loop_Some:
  assumes "fst (download_loop w host_ok cls suffix (g, a, v) out cb repos) = Inr (Some p)"
  shows "p = os_path_join out [replace_char CHR ''.'' os_sep g, a, v, a @ ''-'' @ v @ suffix]
    \<and> (\<exists>pre url. check_artifact_exists w url
          \<and> fst (download_file w url p cb)
          \<and> snd (download_loop w host_ok cls suffix (g, a, v) out cb repos)
            = pre @ Head url # snd (download_file w url p cb))"
  using assms
proof (induction repos)
  case Nil
  then show ?case by simp
next
  case (Cons r rs)
  let ?path = "os_path_join out [replace_char CHR ''.'' os_sep g, a, v, a @ ''-'' @ v @ suffix]"
  let ?rest = "download_loop w host_ok cls suffix (g, a, v) out cb rs"
  let ?all = "download_loop w host_ok cls suffix (g, a, v) out cb (r # rs)"
  show ?case
  proof (cases "get_artifact_url host_ok r g a v cls ''jar''")
    case (Inl e)
    then have "?all = (Inl (UncaughtValueError e), [])" by (rule download_loop_raise)
    with Cons.prems show ?thesis by simp
  next
    case (Inr url)
    consider (absent) "\<not> check_artifact_exists w url"
      | (ok) "check_artifact_exists w url" "fst (download_file w url ?path cb)"
      | (failed) "check_artifact_exists w url" "\<not> fst (download_file w url ?path cb)"
      by blast
    then show ?thesis
    proof cases
      case absent
      with Inr have eq: "?all = (fst ?rest, Head url # snd ?rest)"
        by (rule download_loop_skip)
      with Cons.prems have "fst ?rest = Inr (Some p)" by simp
      from Cons.IH [OF this] obtain pre u where p: "p = ?path"
        and u: "check_artifact_exists w u" "fst (download_file w u p cb)"
        and tr: "snd ?rest = pre @ Head u # snd (download_file w u p cb)"
        by blast
      from eq tr have "snd ?all = (Head url # pre) @ Head u # snd (download_file w u p cb)"
        by simp
      with p u show ?thesis by blast
    next
      case ok
      with Inr have eq: "?all = (Inr (Some ?path), Head url # snd (download_file w url ?path cb))"
        by (rule download_loop_success)
      with Cons.prems have p: "p = ?path" by simp
      from eq p have "snd ?all = [] @ Head url # snd (download_file w url p cb)" by simp
      with p ok show ?thesis by blast
    next
      case failed
      with Inr have eq: "?all = (fst ?rest,
                           Head url # snd (download_file w url ?path cb) @ snd ?rest)"
        by (rule download_loop_failed)
      with Cons.prems have "fst ?rest = Inr (Some p)" by simp
      from Cons.IH [OF this] obtain pre u where p: "p = ?path"
        and u: "check_artifact_exists w u" "fst (download_file w u p cb)"
        and tr: "snd ?rest = pre @ Head u # snd (download_file w u p cb)"
        by blast
      from eq tr have "snd ?all = (Head url # snd (download_file w url ?path cb) @ pre)
                                  @ Head u # snd (download_file w u p cb)"
        by simp
      with p u show ?thesis by blast
    qed
  qed
qed

lemma download_with_Some:
  assumes "download_with cls suffix w host_ok repos dep out cb = (Inr (Some p), effects)"
  shows "\<exists>g a v. parse_dependency dep = Inr (g, a, v)
     \<and> p = os_path_join out [replace_char CHR ''.'' os_sep g, a, v, a @ ''-'' @ v @ suffix]
     \<and> (\<exists>before url status len chunks.
           get_answer w url = GetResponse status len chunks False
           \<and> effects = before @ [Get url, Makedirs (os_path_dirname p), Open p]
                         @ write_chunks p cb (case len of Length n \<Rightarrow> n | _ \<Rightarrow> 0) 0 chunks
                         @ [LogInfo])
     \<and> (out \<noteq> [] \<and> \<not> endswith_sep out
          \<and> plain_component (replace_char CHR ''.'' os_sep g)
          \<and> plain_component a \<and> plain_component v
         \<longrightarrow> p = spec_local_path out g a v suffix)"
proof -
  from assms obtain g a v where parse: "parse_dependency dep = Inr (g, a, v)"
    and loop: "download_loop w host_ok cls suffix (g, a, v) out cb repos = (Inr (Some p), effects)"
    by (auto simp: download_with_def split: sum.splits parse_error.splits)
  let ?path = "os_path_join out [replace_char CHR ''.'' os_sep g, a, v, a @ ''-'' @ v @ suffix]"
  from loop have res: "fst (download_loop w host_ok cls suffix (g, a, v) out cb repos)
                       = Inr (Some p)"
    and eff: "snd (download_loop w host_ok cls suffix (g, a, v) out cb repos) = effects"
    by simp_all
  from download_loop_Some [OF res] obtain pre url where p: "p = ?path"
    and ok: "fst (download_file w url p cb)"
    and tr0: "snd (download_loop w host_ok cls suffix (g, a, v) out cb repos)
              = pre @ Head url # snd (download_file w url p cb)"
    by blast
  from eff tr0 have tr: "effects = pre @ Head url # snd (download_file w url p cb)"
    by simp
  from download_file_True [OF ok] obtain status len chunks where
    get: "get_answer w url = GetResponse status len chunks False"
    and df: "snd (download_file w url p cb)
             = [Get url, Makedirs (os_path_dirname p), Open p]
               @ write_chunks p cb (case len of Length n \<Rightarrow> n | _ \<Rightarrow> 0) 0 chunks
               @ [LogInfo]"
    by blast
  have "effects = (pre @ [Head url]) @ [Get url, Makedirs (os_path_dirname p), Open p]
                  @ write_chunks p cb (case len of Length n \<Rightarrow> n | _ \<Rightarrow> 0) 0 chunks
                  @ [LogInfo]"
    using tr df by simp
  with get have trace: "\<exists>before url status len chunks.
           get_answer w url = GetResponse status len chunks False
           \<and> effects = before @ [Get url, Makedirs (os_path_dirname p), Open p]
                         @ write_chunks p cb (case len of Length n \<Rightarrow> n | _ \<Rightarrow> 0) 0 chunks
                         @ [LogInfo]"
    by blast
  have formula: "p = spec_local_path out g a v suffix"
    if h: "out \<noteq> [] \<and> \<not> endswith_sep out
          \<and> plain_component (replace_char CHR ''.'' os_sep g)
          \<and> plain_component a \<and> plain_component v"
  proof -
    from h have "a \<noteq> []" "\<not> startswith_sep a" by (simp_all add: plain_component_def)
    then have "\<not> startswith_sep (a @ ''-'' @ v @ suffix)"
      using startswith_sep_append [of a "''-'' @ v @ suffix"] by simp
    then have "?path = out @ [os_sep] @ replace_char CHR ''.'' os_sep g @ [os_sep] @ a
                       @ [os_sep] @ v @ [os_sep] @ (a @ ''-'' @ v @ suffix)"
      using h by (intro os_path_join_plain) simp_all
    with p show ?thesis by (simp add: spec_local_path_def)
  qed
  from parse p trace formula show ?thesis by blast
qed

text \<open>
  Claim C7, as stated, fails: the path returned is what \<open>os.path.join\<close> builds, and
  that is not always the string of the path formula. A group that begins with a dot
  becomes a component that begins with the separator, which makes \<open>os.path.join\<close>
  discard the destination root: the file is written outside it.
\<close>

theorem download_sources_outside_root_counterexample:
  "parse_dependency ''.foo:bar:1.0'' = Inr (''.foo'', ''bar'', ''1.0'')
   \<and> download_sources w_open any_host [''https://c/''] ''.foo:bar:1.0'' ''downloads'' False
     = (Inr (Some ''/foo/bar/1.0/bar-1.0-sources.jar''),
        [Head ''https://c/foo/bar/1.0/bar-1.0-sources.jar'',
         Get ''https://c/foo/bar/1.0/bar-1.0-sources.jar'',
         Makedirs ''/foo/bar/1.0'',
         Open ''/foo/bar/1.0/bar-1.0-sources.jar'',
         Write ''/foo/bar/1.0/bar-1.0-sources.jar'' ''jar'',
         LogInfo])
   \<and> spec_local_path ''downloads'' ''.foo'' ''bar'' ''1.0'' ''-sources.jar''
     = ''downloads//foo/bar/1.0/bar-1.0-sources.jar''"
  by code_simp

text \<open>
  Claim C7, amended. Whenever \<open>download_sources\<close> or \<open>download_binary\<close> succeeds, the
  dependency parsed to a coordinate, the path returned is \<open>os.path.join\<close> of the root,
  the group with its dots replaced by the separator, the artifact, the version and the
  file name, and the last effects of the call are the request for the body, the creation
  of the directory of that path, the opening of that very path and the writing of the
  chunks to it. The path is the string of the path formula whenever the root is not
  empty and does not end with the separator, and the group path, the artifact and the
  version are plain.
\<close>

theorem download_returns_joined_path:
  assumes "(download_sources w host_ok repositories dependency output_dir callback
              = (Inr (Some p), effects) \<and> suffix = ''-sources.jar'')
         \<or> (download_binary w host_ok repositories dependency output_dir callback
              = (Inr (Some p), effects) \<and> suffix = ''.jar'')"
  shows "\<exists>g a v. parse_dependency dependency = Inr (g, a, v)
     \<and> p = os_path_join output_dir
             [replace_char CHR ''.'' os_sep g, a, v, a @ ''-'' @ v @ suffix]
     \<and> (\<exists>before url status len chunks.
           get_answer w url = GetResponse status len chunks False
           \<and> effects = before @ [Get url, Makedirs (os_path_dirname p), Open p]
                         @ write_chunks p callback (case len of Length n \<Rightarrow> n | _ \<Rightarrow> 0) 0 chunks
                         @ [LogInfo])
     \<and> (output_dir \<noteq> [] \<and> \<not> endswith_sep output_dir
          \<and> plain_component (replace_char CHR ''.'' os_sep g)
          \<and> plain_component a \<and> plain_component v
         \<longrightarrow> p = spec_local_path output_dir g a v suffix)"
  using assms
proof
  assume "download_sources w host_ok repositories dependency output_dir callback
              = (Inr (Some p), effects) \<and> suffix = ''-sources.jar''"
  then have "download_with (Some ''sources'') suffix w host_ok repositories dependency output_dir
               callback = (Inr (Some p), effects)"
    by (simp add: download_sources_def)
  then show ?thesis by (rule download_with_Some)
next
  assume "download_binary w host_ok repositories dependency output_dir callback
              = (Inr (Some p), effects) \<and> suffix = ''.jar''"
  then have "download_with None suffix w host_ok repositories dependency output_dir
               callback = (Inr (Some p), effects)"
    by (simp add: download_binary_def)
  then show ?thesis by (rule download_with_Some)
qed

theorem download_returns_joined_path_witness:
  "download_sources w_open any_host [''https://c/''] ''com.google.gson:gson:2.8.9'' ''downloads''
     False
   = (Inr (Some ''downloads/com/google/gson/gson/2.8.9/gson-2.8.9-sources.jar''),
      [Head ''https://c/com/google/gson/gson/2.8.9/gson-2.8.9-sources.jar'',
       Get ''https://c/com/google/gson/gson/2.8.9/gson-2.8.9-sources.jar'',
       Makedirs ''downloads/com/google/gson/gson/2.8.9'',
       Open ''downloads/com/google/gson/gson/2.8.9/gson-2.8.9-sources.jar'',
       Write ''downloads/com/google/gson/gson/2.8.9/gson-2.8.9-sources.jar'' ''jar'',
       LogInfo])
   \<and> parse_dependency ''com.google.gson:gson:2.8.9'' = Inr (''com.google.gson'', ''gson'', ''2.8.9'')
   \<and> ''downloads/com/google/gson/gson/2.8.9/gson-2.8.9-sources.jar''
     = spec_local_path ''downloads'' ''com.google.gson'' ''gson'' ''2.8.9'' ''-sources.jar''
   \<and> \<not> endswith_sep ''downloads''
   \<and> plain_component (replace_char CHR ''.'' os_sep ''com.google.gson'')
   \<and> plain_component ''gson'' \<and> plain_component ''2.8.9''"
proof -
  have run: "download_sources w_open any_host [''https://c/''] ''com.google.gson:gson:2.8.9''
     ''downloads'' False
   = (Inr (Some ''downloads/com/google/gson/gson/2.8.9/gson-2.8.9-sources.jar''),
      [Head ''https://c/com/google/gson/gson/2.8.9/gson-2.8.9-sources.jar'',
       Get ''https://c/com/google/gson/gson/2.8.9/gson-2.8.9-sources.jar'',
       Makedirs ''downloads/com/google/gson/gson/2.8.9'',
       Open ''downloads/com/google/gson/gson/2.8.9/gson-2.8.9-sources.jar'',
       Write ''downloads/com/google/gson/gson/2.8.9/gson-2.8.9-sources.jar'' ''jar'',
       LogInfo])"
    by code_simp
  have parse: "parse_dependency ''com.google.gson:gson:2.8.9''
               = Inr (''com.google.gson'', ''gson'', ''2.8.9'')"
    by code_simp
  have plain: "''downloads'' \<noteq> [] \<and> \<not> endswith_sep ''downloads''
     \<and> plain_component (replace_char CHR ''.'' os_sep ''com.google.gson'')
     \<and> plain_component ''gson'' \<and> plain_component ''2.8.9''"
    by code_simp
  from download_returns_joined_path [of w_open any_host "[''https://c/'']"
      "''com.google.gson:gson:2.8.9''" "''downloads''" False
      "''downloads/com/google/gson/gson/2.8.9/gson-2.8.9-sources.jar''" _ "''-sources.jar''"]
    run
  obtain g a v where "parse_dependency ''com.google.gson:gson:2.8.9'' = Inr (g, a, v)"
    and "''downloads'' \<noteq> [] \<and> \<not> endswith_sep ''downloads''
          \<and> plain_component (replace_char CHR ''.'' os_sep g)
          \<and> plain_component a \<and> plain_component v
         \<longrightarrow> ''downloads/com/google/gson/gson/2.8.9/gson-2.8.9-sources.jar''
             = spec_local_path ''downloads'' g a v ''-sources.jar''"
    by blast
  with parse plain
  have "''downloads/com/google/gson/gson/2.8.9/gson-2.8.9-sources.jar''
     = spec_local_path ''downloads'' ''com.google.gson'' ''gson'' ''2.8.9'' ''-sources.jar''"
    by simp
  with run parse plain show ?thesis by blast
qed

section \<open>The list of available versions\<close>

lemma add_versions_distinct: "distinct versions \<Longrightarrow> distinct (add_versions es versions)"
  by (induction es arbitrary: versions) (auto split: option.splits)

lemma document_versions_distinct:
  "distinct versions \<Longrightarrow> distinct (document_versions root versions)"
  by (simp add: document_versions_def add_versions_distinct split: option.splits)

lemma collect_versions_distinct:
  "distinct versions \<Longrightarrow> distinct (fst (collect_versions w host_ok g a repos versions))"
proof (induction repos arbitrary: versions)
  case Nil
  then show ?case by simp
next
  case (Cons r rs)
  then show ?case
    by (auto simp: case_prod_unfold Let_def document_versions_distinct
        split: sum.splits metadata_outcome.splits option.splits)
qed

lemma find_available_versions_descending:
  "distinct (fst (find_available_versions w host_ok repos g a))
   \<and> sorted (rev (fst (find_available_versions w host_ok repos g a)))"
proof -
  have "distinct (fst (collect_versions w host_ok g a repos []))"
    by (rule collect_versions_distinct) simp
  then show ?thesis
    by (simp add: find_available_versions_def case_prod_unfold Let_def)
qed

text \<open>
  Claim C5. The versions are merged without duplicates and sorted downwards as strings,
  and a repository that cannot be reached is only warned about. But the order of
  strings is not the order of versions: where a repository lists 9.0 and 10.0, the
  result begins with 9.0, so the newest version is not first.
\<close>

theorem find_available_versions_newest_last:
  "find_available_versions w_versions any_host [''https://a/'', ''https://b/'', ''https://c/'']
     ''g'' ''a''
   = ([''9.1'', ''9.0'', ''10.0''], [''https://a/''])"
  by code_simp

section \<open>Failures of the decompilation fallback\<close>





section \<open>The artifact URL\<close>

lemma split_on_append_sep: "split_on c (x @ c # y) = split_on c x @ split_on c y"
proof (induction x)
  case Nil
  then show ?case by simp
next
  case (Cons z zs)
  obtain q qs where q: "split_on c zs = q # qs"
    using split_on_not_Nil [of c zs] by (cases "split_on c zs") auto
  with Cons show ?case by simp
qed

lemma join_with_Cons_Nil:
  "xs \<noteq> [] \<Longrightarrow> join_with sep ([] # xs) = sep @ join_with sep xs"
  by (cases xs) simp_all

lemma resolve_dots_plain:
  assumes "\<forall>s\<in>set segments. s \<noteq> ''.'' \<and> s \<noteq> ''..''"
  shows "resolve_dots segments acc = acc @ segments"
  using assms by (induction segments arbitrary: acc) simp_all

lemma filter_middle_snoc:
  "filter_middle (x # ys @ [l]) = x # filter (\<lambda>s. s \<noteq> []) ys @ [l]"
proof -
  obtain z zs where eq: "ys @ [l] = z # zs" by (cases "ys @ [l]") auto
  have "filter_middle (x # z # zs)
        = x # filter (\<lambda>s. s \<noteq> []) (butlast (z # zs)) @ [last (z # zs)]"
    by (simp add: filter_middle_def)
  then show ?thesis unfolding eq [symmetric] by simp
qed

lemma join_with_append:
  assumes "xs \<noteq> []" and "ys \<noteq> []"
  shows "join_with sep (xs @ ys) = join_with sep xs @ sep @ join_with sep ys"
  using assms
proof (induction sep xs rule: join_with.induct)
  case (1 sep)
  then show ?case by simp
next
  case (2 sep p)
  then show ?case by (cases ys) simp_all
next
  case (3 sep p q ps)
  then show ?case by simp
qed

lemma join_with_dirs:
  assumes "ys \<noteq> []"
  shows "join_with ''/'' (segs @ ys) = concat (map (\<lambda>s. s @ ''/'') segs) @ join_with ''/'' ys"
proof (induction segs)
  case Nil
  then show ?case by simp
next
  case (Cons s segs)
  have "segs @ ys \<noteq> []" using assms by simp
  then obtain z zs where "segs @ ys = z # zs" by (cases "segs @ ys") auto
  with Cons show ?case by simp
qed

lemma split_on_dirs:
  assumes "\<forall>s\<in>set segs. CHR ''/'' \<notin> set s"
  shows "split_on CHR ''/'' (concat (map (\<lambda>s. s @ ''/'') segs)) = segs @ [[]]"
  using assms
proof (induction segs)
  case Nil
  then show ?case by simp
next
  case (Cons s segs)
  then have "split_on CHR ''/'' (s @ CHR ''/'' # concat (map (\<lambda>s. s @ ''/'') segs))
             = s # split_on CHR ''/'' (concat (map (\<lambda>s. s @ ''/'') segs))"
    by (intro split_on_append) simp
  with Cons show ?case by simp
qed

lemma uses_relative_netloc: "scheme \<in> set uses_relative \<Longrightarrow> scheme \<in> set uses_netloc"
proof -
  have "list_all (\<lambda>s. s \<in> set uses_netloc) uses_relative" by code_simp
  then show "scheme \<in> set uses_relative \<Longrightarrow> scheme \<in> set uses_netloc"
    by (simp add: list_all_iff)
qed

lemma uses_relative_clean:
  assumes "scheme \<in> set uses_relative"
  shows "filter (\<lambda>c. \<not> unsafe_url_byte c)
           (rev (dropWhile c0_control_or_space (rev (dropWhile c0_control_or_space scheme))))
         = scheme"
proof -
  have "list_all (\<lambda>s. filter (\<lambda>c. \<not> unsafe_url_byte c)
           (rev (dropWhile c0_control_or_space (rev (dropWhile c0_control_or_space s)))) = s)
          uses_relative"
    by code_simp
  with assms show ?thesis by (simp add: list_all_iff)
qed

lemma urlparse_plain_relative:
  assumes ne: "rel \<noteq> []" and c0: "\<not> c0_control_or_space (hd rel)"
    and slash: "hd rel \<noteq> CHR ''/''" and plain: "list_all url_plain_char rel"
    and scheme: "scheme \<in> set uses_relative"
  shows "urlparse host_ok rel scheme = Inr (scheme, [], rel, [], [], [])"
proof -
  from ne obtain x xs where rel: "rel = x # xs" by (cases rel) auto
  have d: "dropWhile c0_control_or_space rel = rel" using rel c0 by simp
  have f: "filter (\<lambda>c. \<not> unsafe_url_byte c) rel = rel"
    using plain by (simp add: filter_id_conv list_all_iff url_plain_char_def)
  have colon: "CHR '':'' \<notin> set rel" and hash: "CHR ''#'' \<notin> set rel"
    and quest: "CHR ''?'' \<notin> set rel" and semi: "CHR '';'' \<notin> set rel"
    using plain by (auto simp: list_all_iff url_plain_char_def)
  have t: "take 2 rel \<noteq> ''//''" using rel slash by simp
  have "urlsplit host_ok rel scheme = Inr (scheme, [], rel, [], [])"
    unfolding urlsplit_def Let_def d f uses_relative_clean [OF scheme]
    using colon hash quest t by (simp add: split_query_fragment_def)
  then show ?thesis using semi by (simp add: urlparse_def)
qed

lemma urlunparse_append:
  assumes "take 1 (p' @ r) \<noteq> ''/''" and "take 1 p' \<noteq> ''/''"
  shows "urlunparse (s, n, CHR ''/'' # p' @ r, [], [], [])
         = urlunparse (s, n, CHR ''/'' # p', [], [], []) @ r"
proof -
  have a: "take 2 (CHR ''/'' # p' @ r) \<noteq> ''//''"
    using assms(1) by (cases "p' @ r") simp_all
  have b: "take 2 (CHR ''/'' # p') \<noteq> ''//''"
    using assms(2) by (cases p') simp_all
  show ?thesis
    unfolding urlunparse_def urlunsplit_def Let_def using a b by simp
qed

lemma urlunparse_nonempty: "urlunparse (s, n, CHR ''/'' # p, [], [], []) \<noteq> []"
  by (simp add: urlunparse_def urlunsplit_def Let_def)

lemma urljoin_merge:
  assumes pb: "urlparse host_ok base [] = Inr (bs, bn, bp, bpar, bq, bf)"
    and pr: "urlparse host_ok url bs = Inr (bs, [], path, par, q, f)"
    and ne: "base \<noteq> []" "url \<noteq> []" "path \<noteq> []"
    and rel: "bs \<in> set uses_relative"
    and slash: "take 1 path \<noteq> ''/''"
    and dir: "last (split_on CHR ''/'' bp) = []"
    and segs: "segments = filter_middle (split_on CHR ''/'' bp @ split_on CHR ''/'' path)"
    and nodot: "last segments \<noteq> ''.''" "last segments \<noteq> ''..''"
    and joined: "join_with ''/'' (resolve_dots segments []) \<noteq> []"
  shows "urljoin host_ok base url
         = Inr (urlunparse (bs, bn, join_with ''/'' (resolve_dots segments []), par, q, f))"
proof -
  have nl: "bs \<in> set uses_netloc" using rel by (rule uses_relative_netloc)
  show ?thesis
    unfolding urljoin_def
    using ne rel nl slash dir nodot joined
    by (simp add: pb pr Let_def segs [symmetric])
qed

lemma urljoin_plain_path:
  assumes pb: "urlparse host_ok base [] = Inr (bscheme, bnetloc, bpath, [], [], [])"
    and rel: "bscheme \<in> set uses_relative"
    and bpath: "bpath = ''/'' @ concat (map (\<lambda>s. s @ ''/'') segs)"
    and segs: "list_all plain_segment segs"
    and unparse: "urlunparse (bscheme, bnetloc, bpath, [], [], []) = base"
    and path: "path = g' @ ''/'' @ a @ ''/'' @ v @ ''/'' @ f"
    and plain: "list_all url_plain_char path"
    and c0: "\<not> c0_control_or_space (hd g')"
    and gsegs: "list_all plain_segment (split_on CHR ''/'' g')"
    and a: "plain_segment a" and v: "plain_segment v" and f: "plain_segment f"
  shows "urljoin host_ok base path = Inr (base @ path)"
proof -
  let ?dirs = "concat (map (\<lambda>s. s @ ''/'') segs)"
  let ?gs = "split_on CHR ''/'' g'"
  have gs_ne: "?gs \<noteq> []" by (rule split_on_not_Nil)
  then obtain g0 gs where gs: "?gs = g0 # gs" by (cases ?gs) auto
  have g0: "g0 \<noteq> []" using gsegs gs by (simp add: plain_segment_def)
  have g'_ne: "g' \<noteq> []"
  proof
    assume "g' = []"
    then have "?gs = [[]]" by simp
    with gs g0 show False by simp
  qed
  then obtain x xs where g': "g' = x # xs" by (cases g') auto
  have x: "x \<noteq> CHR ''/''"
  proof
    assume "x = CHR ''/''"
    then have "?gs = [] # split_on CHR ''/'' xs" using g' by simp
    with gs g0 show False by simp
  qed
  have path_ne: "path \<noteq> []" and hd_path: "hd path = x"
    using path g' by simp_all
  have slash: "take 1 path \<noteq> ''/''" using path g' x by simp
  have pr: "urlparse host_ok path bscheme = Inr (bscheme, [], path, [], [], [])"
    using path_ne _ _ plain rel
  proof (rule urlparse_plain_relative)
    show "\<not> c0_control_or_space (hd path)" using c0 hd_path g' by simp
    show "hd path \<noteq> CHR ''/''" using hd_path x by simp
  qed
  have no_a: "CHR ''/'' \<notin> set a" and no_v: "CHR ''/'' \<notin> set v" and no_f: "CHR ''/'' \<notin> set f"
    using a v f by (simp_all add: plain_segment_def)
  have sp_path: "split_on CHR ''/'' path = ?gs @ [a, v, f]"
  proof -
    have "split_on CHR ''/'' path
          = ?gs @ split_on CHR ''/'' (a @ CHR ''/'' # v @ CHR ''/'' # f)"
      using split_on_append_sep [of "CHR ''/''" g' "a @ CHR ''/'' # v @ CHR ''/'' # f"]
      by (simp add: path)
    also have "split_on CHR ''/'' (a @ CHR ''/'' # v @ CHR ''/'' # f)
               = a # split_on CHR ''/'' (v @ CHR ''/'' # f)"
      using no_a by (rule split_on_append)
    also have "split_on CHR ''/'' (v @ CHR ''/'' # f) = v # split_on CHR ''/'' f"
      using no_v by (rule split_on_append)
    also have "split_on CHR ''/'' f = [f]" using no_f by (rule split_on_no_sep)
    finally show ?thesis by simp
  qed
  have seg_slash: "\<forall>s\<in>set segs. CHR ''/'' \<notin> set s"
    using segs by (simp add: list_all_iff plain_segment_def)
  have sp_base: "split_on CHR ''/'' bpath = [] # segs @ [[]]"
  proof -
    have "split_on CHR ''/'' ([] @ CHR ''/'' # ?dirs) = [] # split_on CHR ''/'' ?dirs"
      by (rule split_on_append) simp
    then show ?thesis using split_on_dirs [OF seg_slash] by (simp add: bpath)
  qed
  have dir: "last (split_on CHR ''/'' bpath) = []" using sp_base by simp
  define segments where "segments = [] # segs @ ?gs @ [a, v, f]"
  have seg_ne: "\<forall>s\<in>set (segs @ ?gs @ [a, v]). s \<noteq> []"
    using segs gsegs a v by (auto simp: list_all_iff plain_segment_def)
  have fm: "filter_middle (split_on CHR ''/'' bpath @ split_on CHR ''/'' path) = segments"
  proof -
    have "split_on CHR ''/'' bpath @ split_on CHR ''/'' path
          = [] # (segs @ [[]] @ ?gs @ [a, v]) @ [f]"
      by (simp add: sp_base sp_path)
    then have "filter_middle (split_on CHR ''/'' bpath @ split_on CHR ''/'' path)
               = [] # filter (\<lambda>s. s \<noteq> []) (segs @ [[]] @ ?gs @ [a, v]) @ [f]"
      by (simp only: filter_middle_snoc)
    also have "filter (\<lambda>s. s \<noteq> []) (segs @ [[]] @ ?gs @ [a, v]) = segs @ ?gs @ [a, v]"
      using seg_ne by (simp add: filter_id_conv)
    finally show ?thesis by (simp add: segments_def)
  qed
  have nodots: "\<forall>s\<in>set segments. s \<noteq> ''.'' \<and> s \<noteq> ''..''"
    using segs gsegs a v f by (auto simp: segments_def list_all_iff plain_segment_def)
  have rd: "resolve_dots segments [] = segments"
    using resolve_dots_plain [OF nodots, of "[]"] by simp
  have last_seg: "last segments = f" by (simp add: segments_def)
  have joined: "join_with ''/'' segments = bpath @ path"
  proof -
    have ne: "?gs @ [a, v, f] \<noteq> []" by simp
    have "join_with ''/'' segments = ''/'' @ join_with ''/'' (segs @ ?gs @ [a, v, f])"
      unfolding segments_def by (rule join_with_Cons_Nil) simp
    also have "join_with ''/'' (segs @ ?gs @ [a, v, f])
               = ?dirs @ join_with ''/'' (?gs @ [a, v, f])"
      using ne by (rule join_with_dirs)
    also have "join_with ''/'' (?gs @ [a, v, f]) = path"
      using join_split_on [of "CHR ''/''" path] by (simp add: sp_path)
    finally show ?thesis by (simp add: bpath)
  qed
  have "urlunparse (bscheme, bnetloc, CHR ''/'' # ?dirs, [], [], []) \<noteq> []"
    by (rule urlunparse_nonempty)
  then have base_ne: "base \<noteq> []"
    using unparse by (simp add: bpath)
  have "urljoin host_ok base path
        = Inr (urlunparse (bscheme, bnetloc, join_with ''/'' (resolve_dots segments []),
                 [], [], []))"
    using pb pr base_ne path_ne path_ne rel slash dir fm [symmetric]
  proof (rule urljoin_merge)
    show "last segments \<noteq> ''.''" "last segments \<noteq> ''..''"
      using f by (simp_all add: last_seg plain_segment_def)
    show "join_with ''/'' (resolve_dots segments []) \<noteq> []"
      using path_ne by (simp add: rd joined)
  qed
  also have "join_with ''/'' (resolve_dots segments []) = CHR ''/'' # ?dirs @ path"
    by (simp add: rd joined bpath)
  also have "urlunparse (bscheme, bnetloc, CHR ''/'' # ?dirs @ path, [], [], [])
             = urlunparse (bscheme, bnetloc, CHR ''/'' # ?dirs, [], [], []) @ path"
  proof (rule urlunparse_append)
    show "take 1 ?dirs \<noteq> ''/''"
    proof (cases segs)
      case Nil
      then show ?thesis by simp
    next
      case (Cons s ss)
      with segs obtain y ys where "s = y # ys" "y \<noteq> CHR ''/''"
        by (cases s) (auto simp: plain_segment_def)
      with Cons show ?thesis by simp
    qed
    show "take 1 (?dirs @ path) \<noteq> ''/''"
    proof (cases segs)
      case Nil
      then show ?thesis using slash by simp
    next
      case (Cons s ss)
      with segs obtain y ys where "s = y # ys" "y \<noteq> CHR ''/''"
        by (cases s) (auto simp: plain_segment_def)
      with Cons show ?thesis by simp
    qed
  qed
  also have "urlunparse (bscheme, bnetloc, CHR ''/'' # ?dirs, [], [], []) = base"
    using unparse by (simp add: bpath)
  finally show ?thesis .
qed

text \<open>
  Claim C6, as stated, fails: what is returned is not always the base URL followed by
  the path. \<open>urljoin\<close> resolves a version \<open>..\<close> against the path, and for the
  coordinate that the parser makes of \<open>.:[\<close> it raises instead of returning.
\<close>

theorem get_artifact_url_normalised_counterexample:
  "parse_dependency ''g:a:..'' = Inr (''g'', ''a'', ''..'')
   \<and> get_artifact_url any_host ''https://repo1.maven.org/maven2/'' ''g'' ''a'' ''..''
       (Some ''sources'') ''jar''
     = Inr ''https://repo1.maven.org/maven2/g/a-..-sources.jar''
   \<and> ''https://repo1.maven.org/maven2/'' @ spec_artifact_path ''g'' ''a'' ''..'' (Some ''sources'') ''jar''
     = ''https://repo1.maven.org/maven2/g/a/../a-..-sources.jar''
   \<and> parse_dependency ''.:['' = Inr ([], [], ''['')
   \<and> get_artifact_url any_host ''https://repo1.maven.org/maven2/'' [] [] ''[''
       (Some ''sources'') ''jar''
     = Inl InvalidIPv6URL"
  by code_simp

text \<open>
  Claim C6, amended. Take a base URL that \<open>urlparse\<close> splits into a scheme that
  allows relative URLs, a network location and a path of plain segments, each followed
  by a slash, with no parameters, query or fragment, and that \<open>urlunparse\<close> puts back
  together unchanged. Take a coordinate of plain characters whose group does not begin
  with a control character or a space and falls into plain segments at its dots, and
  whose artifact and version are plain segments. Then, for no classifier and for the
  classifier \<open>sources\<close>, with the extension \<open>jar\<close>, the artifact URL is exactly the
  base URL followed by the path of the specification.
\<close>

theorem get_artifact_url_plain:
  assumes "urlparse host_ok repo_url [] = Inr (bscheme, bnetloc, bpath, [], [], [])"
    and "bscheme \<in> set uses_relative"
    and "bpath = ''/'' @ concat (map (\<lambda>s. s @ ''/'') segs)"
    and "list_all plain_segment segs"
    and "urlunparse (bscheme, bnetloc, bpath, [], [], []) = repo_url"
    and "list_all url_plain_char (g @ a @ v)"
    and "\<not> c0_control_or_space (hd g)"
    and "list_all plain_segment (split_on CHR ''/'' (replace_char CHR ''.'' CHR ''/'' g))"
    and "plain_segment a" and "plain_segment v"
    and "classifier = None \<or> classifier = Some ''sources''"
  shows "get_artifact_url host_ok repo_url g a v classifier ''jar''
         = Inr (repo_url @ spec_artifact_path g a v classifier ''jar'')"
proof -
  define g' where "g' = replace_char CHR ''.'' CHR ''/'' g"
  define suffix where "suffix = (case classifier of None \<Rightarrow> [] | Some c \<Rightarrow> ''-'' @ c)"
  define f where "f = a @ ''-'' @ v @ suffix @ ''.jar''"
  define path where "path = g' @ ''/'' @ a @ ''/'' @ v @ ''/'' @ f"
  have suffix: "suffix = [] \<or> suffix = ''-sources''"
    using assms(11) by (auto simp: suffix_def)
  have url: "get_artifact_url host_ok repo_url g a v classifier ''jar''
             = urljoin host_ok repo_url path"
    using assms(11)
    by (auto simp: get_artifact_url_def path_def f_def g'_def suffix_def)
  have spec: "spec_artifact_path g a v classifier ''jar'' = path"
    by (simp add: spec_artifact_path_def path_def f_def g'_def suffix_def)
  have g_ne: "g \<noteq> []"
  proof
    assume "g = []"
    then have "split_on CHR ''/'' (replace_char CHR ''.'' CHR ''/'' g) = [[]]"
      by (simp add: replace_char_def)
    with assms(8) show False by (simp add: plain_segment_def)
  qed
  then obtain x xs where g: "g = x # xs" by (cases g) auto
  have c0: "\<not> c0_control_or_space (hd g')"
  proof (cases "x = CHR ''.''")
    case True
    then have "hd g' = CHR ''/''" by (simp add: g'_def g replace_char_def)
    then show ?thesis by (simp add: c0_control_or_space_def)
  next
    case False
    then have "hd g' = hd g" by (simp add: g'_def g replace_char_def)
    with assms(7) show ?thesis by simp
  qed
  have pg: "list_all url_plain_char g" and pa: "list_all url_plain_char a"
    and pv: "list_all url_plain_char v"
    using assms(6) by simp_all
  have pg': "list_all url_plain_char g'"
    using pg by (auto simp: g'_def replace_char_def list_all_iff url_plain_char_def
        unsafe_url_byte_def)
  have psuffix: "list_all url_plain_char suffix"
    using suffix by (auto simp: url_plain_char_def unsafe_url_byte_def)
  have pf: "list_all url_plain_char f"
    using pa pv psuffix by (simp add: f_def url_plain_char_def unsafe_url_byte_def)
  have plain: "list_all url_plain_char path"
    using pg' pa pv pf by (simp add: path_def url_plain_char_def unsafe_url_byte_def)
  have a: "a \<noteq> []" "CHR ''/'' \<notin> set a" using assms(9) by (simp_all add: plain_segment_def)
  have v: "CHR ''/'' \<notin> set v" using assms(10) by (simp add: plain_segment_def)
  have fslash: "CHR ''/'' \<notin> set f" using a v suffix by (auto simp: f_def)
  have dash: "CHR ''-'' \<in> set f" by (simp add: f_def)
  have fseg: "plain_segment f"
  proof -
    have "f \<noteq> []" using dash by auto
    moreover have "f \<noteq> ''.''" using dash by auto
    moreover have "f \<noteq> ''..''" using dash by auto
    ultimately show ?thesis using fslash by (simp add: plain_segment_def)
  qed
  have "urljoin host_ok repo_url path = Inr (repo_url @ path)"
    using assms(1,2,3,4,5) path_def plain c0 assms(8) [folded g'_def] assms(9,10) fseg
    by (rule urljoin_plain_path)
  with url spec show ?thesis by simp
qed

theorem get_artifact_url_plain_witness:
  "urlparse any_host ''https://repo1.maven.org/maven2/'' []
     = Inr (''https'', ''repo1.maven.org'', ''/maven2/'', [], [], [])
   \<and> ''https'' \<in> set uses_relative
   \<and> list_all plain_segment [''maven2'']
   \<and> urlunparse (''https'', ''repo1.maven.org'', ''/maven2/'', [], [], [])
     = ''https://repo1.maven.org/maven2/''
   \<and> list_all url_plain_char (''com.google.gson'' @ ''gson'' @ ''2.8.9'')
   \<and> \<not> c0_control_or_space (hd ''com.google.gson'')
   \<and> list_all plain_segment (split_on CHR ''/'' (replace_char CHR ''.'' CHR ''/'' ''com.google.gson''))
   \<and> plain_segment ''gson'' \<and> plain_segment ''2.8.9''
   \<and> get_artifact_url any_host ''https://repo1.maven.org/maven2/'' ''com.google.gson'' ''gson''
       ''2.8.9'' (Some ''sources'') ''jar''
     = Inr ''https://repo1.maven.org/maven2/com/google/gson/gson/2.8.9/gson-2.8.9-sources.jar''"
proof -
  have h1: "urlparse any_host ''https://repo1.maven.org/maven2/'' []
     = Inr (''https'', ''repo1.maven.org'', ''/maven2/'', [], [], [])"
    by code_simp
  have h2: "''https'' \<in> set uses_relative" by code_simp
  have h3: "''/maven2/'' = ''/'' @ concat (map (\<lambda>s. s @ ''/'') [''maven2''])" by simp
  have h4: "list_all plain_segment [''maven2'']" by code_simp
  have h5: "urlunparse (''https'', ''repo1.maven.org'', ''/maven2/'', [], [], [])
     = ''https://repo1.maven.org/maven2/''"
    by code_simp
  have h6: "list_all url_plain_char (''com.google.gson'' @ ''gson'' @ ''2.8.9'')" by code_simp
  have h7: "\<not> c0_control_or_space (hd ''com.google.gson'')" by code_simp
  have h8: "list_all plain_segment
              (split_on CHR ''/'' (replace_char CHR ''.'' CHR ''/'' ''com.google.gson''))"
    by code_simp
  have h9: "plain_segment ''gson''" by code_simp
  have h10: "plain_segment ''2.8.9''" by code_simp
  have h11: "Some ''sources'' = None \<or> Some ''sources'' = Some ''sources''" by simp
  have sp: "''https://repo1.maven.org/maven2/''
            @ spec_artifact_path ''com.google.gson'' ''gson'' ''2.8.9'' (Some ''sources'') ''jar''
     = ''https://repo1.maven.org/maven2/com/google/gson/gson/2.8.9/gson-2.8.9-sources.jar''"
    by code_simp
  from get_artifact_url_plain [OF h1 h2 h3 h4 h5 h6 h7 h8 h9 h10 h11] sp
  have "get_artifact_url any_host ''https://repo1.maven.org/maven2/'' ''com.google.gson'' ''gson''
       ''2.8.9'' (Some ''sources'') ''jar''
     = Inr ''https://repo1.maven.org/maven2/com/google/gson/gson/2.8.9/gson-2.8.9-sources.jar''"
    by simp
  with h1 h2 h4 h5 h6 h7 h8 h9 h10 show ?thesis by blast
qed

end
